theory Spec2Isabelle
  imports Complex_Main "HOL-Library.AList" "HOL-Library.Sublist"
begin

section \<open>Session registry (app.js, userSessions)\<close>

text \<open>
  \<^verbatim>\<open>userSessions\<close> is a JavaScript \<^verbatim>\<open>Map\<close> from user name to a session object. A
  \<^verbatim>\<open>Map\<close> keeps its entries in insertion order, \<^verbatim>\<open>set\<close> on a present key replaces the value
  in place and on a new key appends, \<^verbatim>\<open>delete\<close> removes the entry: an association list with
  \<open>AList.update\<close> and \<open>AList.delete\<close>. A client (an axios instance with its own cookie
  jar) is represented by the number of the \<^verbatim>\<open>getNewClient()\<close> call that made it. A session
  made by \<^verbatim>\<open>getUserClient\<close> has no \<^verbatim>\<open>studentId\<close> and no \<^verbatim>\<open>csrf\<close> field (\<open>None\<close>).
  \<^verbatim>\<open>Date.now()\<close> is read once per synchronous call and passed in as \<open>now\<close> (milliseconds).
\<close>

record session =
  client :: nat
  studentId :: "string option"
  csrf :: "string option"
  lastUsed :: int

type_synonym registry = "(string \<times> session) list"

record server =
  userSessions :: registry
  clients_made :: nat
  logins_started :: nat

definition SESSION_TIMEOUT :: int where
  "SESSION_TIMEOUT = 5 * 60 * 1000"

definition SWEEP_INTERVAL :: int where
  "SWEEP_INTERVAL = 5 * 60 * 1000"

definition getNewClient :: "server \<Rightarrow> nat \<times> server" where
  "getNewClient srv = (clients_made srv, srv\<lparr>clients_made := Suc (clients_made srv)\<rparr>)"

definition create_session :: "int \<Rightarrow> string \<Rightarrow> server \<Rightarrow> nat \<times> server" where
  "create_session now username srv =
     (let (c, srv1) = getNewClient srv
      in (c, srv1\<lparr>userSessions :=
                  AList.update username
                    \<lparr>client = c, studentId = None, csrf = None, lastUsed = now\<rparr>
                    (userSessions srv1)\<rparr>))"

definition getUserClient :: "int \<Rightarrow> string \<Rightarrow> server \<Rightarrow> nat \<times> server" where
  "getUserClient now username srv =
     (case map_of (userSessions srv) username of
        Some s \<Rightarrow>
          if now - lastUsed s < SESSION_TIMEOUT
          then (client s,
                srv\<lparr>userSessions :=
                      AList.update username (s\<lparr>lastUsed := now\<rparr>) (userSessions srv)\<rparr>)
          else create_session now username
                 (srv\<lparr>userSessions := AList.delete username (userSessions srv)\<rparr>)
      | None \<Rightarrow> create_session now username srv)"

text \<open>
  The periodic sweep: \<^verbatim>\<open>for (const [username, session] of userSessions.entries())\<close>
  deletes the entry under iteration when \<^verbatim>\<open>now - session.lastUsed > SESSION_TIMEOUT\<close>.
\<close>

fun sweep_entries :: "int \<Rightarrow> (string \<times> session) list \<Rightarrow> registry \<Rightarrow> registry" where
  "sweep_entries now [] m = m"
| "sweep_entries now ((username, s) # es) m =
     sweep_entries now es
       (if now - lastUsed s > SESSION_TIMEOUT then AList.delete username m else m)"

definition sweep :: "int \<Rightarrow> server \<Rightarrow> server" where
  "sweep now srv =
     srv\<lparr>userSessions := sweep_entries now (userSessions srv) (userSessions srv)\<rparr>"

text \<open>
  The synchronous prefix of the \<^verbatim>\<open>/initialdata\<close> handler, up to its first \<^verbatim>\<open>await\<close>:
  the check of the request body, \<^verbatim>\<open>getUserClient(username)\<close>, then
  \<^verbatim>\<open>session?.studentId && session?.csrf\<close> decides between reusing the stored context and
  calling \<^verbatim>\<open>attemptLogin\<close>. Node runs this prefix without interruption; the handler is
  suspended only inside \<^verbatim>\<open>attemptLogin\<close>, at the first network call. \<open>logins_started\<close>
  counts the calls of \<^verbatim>\<open>attemptLogin\<close>.
\<close>

datatype handler_start = BadRequest | UseExisting string string | StartLogin nat

definition truthy :: "string option \<Rightarrow> bool" where
  "truthy v = (case v of None \<Rightarrow> False | Some s \<Rightarrow> s \<noteq> [])"

definition initialdata_start ::
  "int \<Rightarrow> string \<Rightarrow> string \<Rightarrow> server \<Rightarrow> handler_start \<times> server" where
  "initialdata_start now username password srv =
     (if username = [] \<or> password = [] then (BadRequest, srv)
      else
        let (c, srv1) = getUserClient now username srv
        in case map_of (userSessions srv1) username of
             Some s \<Rightarrow>
               if truthy (studentId s) \<and> truthy (csrf s)
               then (UseExisting (the (studentId s)) (the (csrf s)), srv1)
               else (StartLogin c, srv1\<lparr>logins_started := Suc (logins_started srv1)\<rparr>)
           | None \<Rightarrow> (StartLogin c, srv1\<lparr>logins_started := Suc (logins_started srv1)\<rparr>))"

text \<open>
  Requests for the same user whose handlers start at the times \<open>nows\<close>, one after the
  other, all of them before any login finishes.
\<close>

fun simultaneous_starts ::
  "int list \<Rightarrow> string \<Rightarrow> string \<Rightarrow> server \<Rightarrow> handler_start list \<times> server" where
  "simultaneous_starts [] username password srv = ([], srv)"
| "simultaneous_starts (now # nows) username password srv =
     (let (r, srv1) = initialdata_start now username password srv;
          (rs, srv2) = simultaneous_starts nows username password srv1
      in (r # rs, srv2))"

definition empty_server :: server where
  "empty_server = \<lparr>userSessions = [], clients_made = 0, logins_started = 0\<rparr>"

definition sample_session :: session where
  "sample_session = \<lparr>client = 0, studentId = Some ''S1'', csrf = Some ''tok'', lastUsed = 0\<rparr>"

definition sample_server :: server where
  "sample_server =
     \<lparr>userSessions = [(''stu1'', sample_session)], clients_made = 1, logins_started = 1\<rparr>"

section \<open>JavaScript numbers and arrays (captchasolver.js)\<close>

text \<open>
  A JavaScript number is \<^verbatim>\<open>NaN\<close>, an infinity or a finite value. On the pixel path of the
  solver every finite value is a non-negative integer below \<open>2^53\<close> or the quotient of two
  such integers with a divisor of at most 960. Doubles add, subtract and multiply these
  integers exactly; a quotient is rounded by less than \<open>2^-44\<close>, while it differs from every
  value it is later compared with, and from every point where \<^verbatim>\<open>Math.round\<close> changes, by
  nothing or by more than \<open>10^-6\<close>. On that path the operators are therefore modelled
  exactly, on rationals. The model has one zero: \<open>-0\<close> does not arise from these operands.
  Reading an array beyond its length gives \<^verbatim>\<open>undefined\<close> (\<open>None\<close>), which arithmetic and
  comparisons convert to \<^verbatim>\<open>NaN\<close>; reading an index of \<^verbatim>\<open>undefined\<close> throws a TypeError.
\<close>

datatype jsnum = NaN | NInf | Fin rat | PInf

datatype js_error = TypeError | RangeError | LoadError | IOError

definition nth_opt :: "'a list \<Rightarrow> nat \<Rightarrow> 'a option" where
  "nth_opt xs i = (if i < length xs then Some (xs ! i) else None)"

definition to_num :: "jsnum option \<Rightarrow> jsnum" where
  "to_num v = (case v of None \<Rightarrow> NaN | Some n \<Rightarrow> n)"

fun js_gt :: "jsnum \<Rightarrow> jsnum \<Rightarrow> bool" where
  "js_gt NaN b = False"
| "js_gt a NaN = False"
| "js_gt PInf b = (b \<noteq> PInf)"
| "js_gt NInf b = False"
| "js_gt (Fin a) NInf = True"
| "js_gt (Fin a) (Fin b) = (b < a)"
| "js_gt (Fin a) PInf = False"

fun js_add :: "jsnum \<Rightarrow> jsnum \<Rightarrow> jsnum" where
  "js_add NaN b = NaN"
| "js_add a NaN = NaN"
| "js_add PInf b = (if b = NInf then NaN else PInf)"
| "js_add NInf b = (if b = PInf then NaN else NInf)"
| "js_add (Fin a) (Fin b) = Fin (a + b)"
| "js_add (Fin a) b = b"

fun js_neg :: "jsnum \<Rightarrow> jsnum" where
  "js_neg NaN = NaN"
| "js_neg PInf = NInf"
| "js_neg NInf = PInf"
| "js_neg (Fin a) = Fin (- a)"

definition js_sub :: "jsnum \<Rightarrow> jsnum \<Rightarrow> jsnum" where
  "js_sub a b = js_add a (js_neg b)"

fun sign_of :: "jsnum \<Rightarrow> rat" where
  "sign_of NaN = 0"
| "sign_of PInf = 1"
| "sign_of NInf = - 1"
| "sign_of (Fin a) = sgn a"

definition signed_inf :: "rat \<Rightarrow> jsnum" where
  "signed_inf s = (if s = 0 then NaN else if 0 < s then PInf else NInf)"

fun js_mul :: "jsnum \<Rightarrow> jsnum \<Rightarrow> jsnum" where
  "js_mul NaN b = NaN"
| "js_mul a NaN = NaN"
| "js_mul (Fin a) (Fin b) = Fin (a * b)"
| "js_mul a b = signed_inf (sign_of a * sign_of b)"

fun js_div :: "jsnum \<Rightarrow> jsnum \<Rightarrow> jsnum" where
  "js_div NaN b = NaN"
| "js_div a NaN = NaN"
| "js_div (Fin a) (Fin b) = (if b = 0 then signed_inf (sgn a) else Fin (a / b))"
| "js_div (Fin a) b = Fin 0"
| "js_div a (Fin b) = signed_inf (sign_of a * (if b < 0 then - 1 else 1))"
| "js_div a b = NaN"

fun math_round :: "jsnum \<Rightarrow> jsnum" where
  "math_round (Fin a) = Fin (of_int \<lfloor>a + 1 / 2\<rfloor>)"
| "math_round a = a"

text \<open>\<^verbatim>\<open>Math.min(...xs)\<close> and \<^verbatim>\<open>Math.max(...xs)\<close>: \<^verbatim>\<open>NaN\<close> as soon as one argument is.\<close>

definition math_min :: "jsnum list \<Rightarrow> jsnum" where
  "math_min xs = (if NaN \<in> set xs then NaN
                  else fold (\<lambda>x m. if js_gt m x then x else m) xs PInf)"

definition math_max :: "jsnum list \<Rightarrow> jsnum" where
  "math_max xs = (if NaN \<in> set xs then NaN
                  else fold (\<lambda>x m. if js_gt x m then x else m) xs NInf)"

text \<open>\<^verbatim>\<open>xs.indexOf(v)\<close>: the first index whose element is strictly equal to \<open>v\<close>, or \<open>-1\<close>.\<close>

definition strict_eq :: "jsnum \<Rightarrow> jsnum \<Rightarrow> bool" where
  "strict_eq a b = (a \<noteq> NaN \<and> a = b)"

fun indexOf_from :: "nat \<Rightarrow> jsnum list \<Rightarrow> jsnum \<Rightarrow> int" where
  "indexOf_from k [] v = - 1"
| "indexOf_from k (x # xs) v = (if strict_eq x v then int k else indexOf_from (Suc k) xs v)"

definition indexOf :: "jsnum list \<Rightarrow> jsnum \<Rightarrow> int" where
  "indexOf xs v = indexOf_from 0 xs v"

text \<open>A loop over the indices \<open>is\<close> that threads a state and stops at the first throw.\<close>

fun for_each :: "('s \<Rightarrow> nat \<Rightarrow> js_error + 's) \<Rightarrow> nat list \<Rightarrow> 's \<Rightarrow> js_error + 's" where
  "for_each f [] s = Inr s"
| "for_each f (i # is) s = (case f s i of Inl e \<Rightarrow> Inl e | Inr s' \<Rightarrow> for_each f is s')"

section \<open>Pipeline B: saturation grid and cells (captchasolver.js)\<close>

text \<open>
  \<^verbatim>\<open>d\<close> is the \<^verbatim>\<open>Uint8ClampedArray\<close> of RGBA bytes. \<^verbatim>\<open>new Array(d.length / 4)\<close> throws a
  RangeError when the length is not a multiple of 4.
\<close>

definition channel :: "nat list \<Rightarrow> nat \<Rightarrow> jsnum" where
  "channel d i = to_num (map_option (\<lambda>v. Fin (of_nat v)) (nth_opt d i))"

definition saturate_at :: "nat list \<Rightarrow> nat \<Rightarrow> jsnum" where
  "saturate_at d i =
     (let mn = math_min [channel d i, channel d (i + 1), channel d (i + 2)];
          mx = math_max [channel d i, channel d (i + 1), channel d (i + 2)]
      in math_round (js_div (js_mul (js_sub mx mn) (Fin 255)) mx))"

definition saturate :: "nat list \<Rightarrow> jsnum list" where
  "saturate d = map (\<lambda>k. saturate_at d (4 * k)) [0..<length d div 4]"

definition saturation_img :: "nat list \<Rightarrow> jsnum option list list" where
  "saturation_img d =
     map (\<lambda>i. map (\<lambda>j. nth_opt (saturate d) (i * 200 + j)) [0..<200]) [0..<40]"

definition slice :: "'a list \<Rightarrow> nat \<Rightarrow> nat \<Rightarrow> 'a list" where
  "slice xs a b = take (b - a) (drop a xs)"

definition block :: "jsnum option list list \<Rightarrow> nat \<Rightarrow> jsnum option list list" where
  "block img i =
     (let x1 = (i + 1) * 25 + 2;
          y1 = 7 + 5 * (i mod 2) + 1;
          x2 = (i + 2) * 25 + 1;
          y2 = 35 - 5 * ((i + 1) mod 2)
      in map (\<lambda>row. slice row x1 x2) (slice img y1 y2))"

definition saturation :: "nat list \<Rightarrow> js_error + jsnum option list list list" where
  "saturation d =
     (if length d mod 4 \<noteq> 0 then Inl RangeError
      else Inr (map (block (saturation_img d)) [0..<6]))"

section \<open>Pipeline B: loading, classifying (captchasolver.js, solveCaptchaFromBase64)\<close>

text \<open>
  The image reaches the canvas library through one file, \<^verbatim>\<open>./temp_captcha.jpg\<close>, which every
  call of the solver uses: \<^verbatim>\<open>fs.writeFileSync\<close> stores the decoded payload there, the
  loader reads that path, and \<^verbatim>\<open>fs.unlinkSync\<close> deletes the file after the loop over the
  cells. The file system is a state: the contents of that file (\<open>None\<close> when there is no such
  file; bytes are written as the base64 text that stands for them) and whether the
  operating system refuses to change it. \<^verbatim>\<open>writeFileSync\<close> throws when it is refused;
  \<^verbatim>\<open>unlinkSync\<close> throws when it is refused or when there is no file.
\<close>

record files =
  temp_captcha :: "string option"
  unwritable :: bool

definition writeFileSync :: "string \<Rightarrow> files \<Rightarrow> js_error + files" where
  "writeFileSync bytes fs =
     (if unwritable fs then Inl IOError else Inr (fs\<lparr>temp_captcha := Some bytes\<rparr>))"

definition unlinkSync :: "files \<Rightarrow> js_error + files" where
  "unlinkSync fs =
     (if unwritable fs \<or> temp_captcha fs = None then Inl IOError
      else Inr (fs\<lparr>temp_captcha := None\<rparr>))"

text \<open>
  \<^verbatim>\<open>await loadImage(tempFilePath)\<close> suspends the call. Handlers of other requests, among
  them other calls of the solver, run before the loader reads the file and again before
  this call resumes; between its resumption and \<^verbatim>\<open>unlinkSync\<close> the call is synchronous.
  What the others do to the files at these two points are the parameters
  \<open>others_before_load\<close> and \<open>others_before_resume\<close> (the identity when the call runs alone),
  and \<open>files\<close> is the file system when the call starts.

  The canvas library is a collaborator. \<open>loadImage\<close> decodes the bytes it reads from the
  temporary file (\<open>None\<close> when the promise is rejected; it is also rejected when there is
  no file); a decoded image has a width and a height of its own. \<^verbatim>\<open>createCanvas(WIDTH, HEIGHT)\<close> makes a canvas of 200 by 40 pixels;
  \<^verbatim>\<open>ctx.drawImage(img, 0, 0, WIDTH, HEIGHT)\<close> paints the image stretched to that rectangle:
  \<open>sample img dw dh x y\<close> is the colour the library gives to the destination pixel
  \<open>(x, y)\<close>; \<^verbatim>\<open>ctx.getImageData(0, 0, WIDTH, HEIGHT).data\<close> is the canvas as RGBA bytes,
  row by row. The weights and biases come from \<^verbatim>\<open>bitmaps.json\<close>, which is not part of the
  sources: they are parameters. They are arbitrary doubles, so on them the rounding of
  \<open>+\<close>, \<open>*\<close>, \<open>/\<close> and \<^verbatim>\<open>Math.exp\<close> matters and these four operations are parameters too.
\<close>

record image =
  img_width :: nat
  img_height :: nat
  img_data :: "nat list"

record solver_env =
  files :: files
  others_before_load :: "files \<Rightarrow> files"
  others_before_resume :: "files \<Rightarrow> files"
  loadImage :: "string \<Rightarrow> image option"
  sample :: "image \<Rightarrow> nat \<Rightarrow> nat \<Rightarrow> nat \<Rightarrow> nat \<Rightarrow> nat \<times> nat \<times> nat \<times> nat"
  fadd :: "jsnum \<Rightarrow> jsnum \<Rightarrow> jsnum"
  fmul :: "jsnum \<Rightarrow> jsnum \<Rightarrow> jsnum"
  fdiv :: "jsnum \<Rightarrow> jsnum \<Rightarrow> jsnum"
  fexp :: "jsnum \<Rightarrow> jsnum"
  weights :: "jsnum list list"
  biases :: "jsnum list"

definition HEIGHT :: nat where
  "HEIGHT = 40"

definition WIDTH :: nat where
  "WIDTH = 200"

definition rgba_bytes :: "nat \<times> nat \<times> nat \<times> nat \<Rightarrow> nat list" where
  "rgba_bytes c = (case c of (r, g, b, a) \<Rightarrow> [min 255 r, min 255 g, min 255 b, min 255 a])"

definition getImageData :: "solver_env \<Rightarrow> image \<Rightarrow> nat list" where
  "getImageData env img =
     concat (map (\<lambda>y. concat (map (\<lambda>x. rgba_bytes (sample env img WIDTH HEIGHT x y))
                                    [0..<WIDTH]))
                 [0..<HEIGHT])"

text \<open>\<^verbatim>\<open>base64String.split(',')[1]\<close>; \<^verbatim>\<open>Buffer.from(undefined, 'base64')\<close> throws.\<close>

fun split_comma :: "string \<Rightarrow> string list" where
  "split_comma [] = [[]]"
| "split_comma (c # cs) =
     (if c = CHR '','' then [] # split_comma cs
      else (case split_comma cs of [] \<Rightarrow> [[c]] | p # ps \<Rightarrow> (c # p) # ps))"

definition image_payload :: "string \<Rightarrow> js_error + string" where
  "image_payload base64String =
     (case nth_opt (split_comma base64String) 1 of
        None \<Rightarrow> Inl TypeError
      | Some imageData \<Rightarrow> Inr imageData)"

text \<open>
  The call up to \<^verbatim>\<open>saturation\<close>: the six cells, and the files as the call finds them when
  it resumes after the \<^verbatim>\<open>await\<close>.
\<close>

definition decode_cells ::
  "solver_env \<Rightarrow> string \<Rightarrow> js_error + jsnum option list list list \<times> files" where
  "decode_cells env base64String =
     (case image_payload base64String of
        Inl e \<Rightarrow> Inl e
      | Inr imageData \<Rightarrow>
          (case writeFileSync imageData (files env) of
             Inl e \<Rightarrow> Inl e
           | Inr written \<Rightarrow>
               (let at_load = others_before_load env written
                in case temp_captcha at_load of
                     None \<Rightarrow> Inl LoadError
                   | Some bytes \<Rightarrow>
                       (case loadImage env bytes of
                          None \<Rightarrow> Inl LoadError
                        | Some img \<Rightarrow>
                            (case saturation (getImageData env img) of
                               Inl e \<Rightarrow> Inl e
                             | Inr bls \<Rightarrow> Inr (bls, others_before_resume env at_load))))))"

definition elem :: "'a option list \<Rightarrow> nat \<Rightarrow> 'a option" where
  "elem xs i = (if i < length xs then xs ! i else None)"

definition pre_img :: "jsnum option list list \<Rightarrow> jsnum list list" where
  "pre_img img =
     (let avg = js_div (fold (\<lambda>f a. js_add a (to_num f)) (concat img) (Fin 0)) (Fin (24 * 22))
      in case img of
           [] \<Rightarrow> []
         | r0 # _ \<Rightarrow>
             map (\<lambda>row. map (\<lambda>j. if js_gt (to_num (elem row j)) avg then Fin 1 else Fin 0)
                              [0..<length r0])
                 img)"

definition flatten :: "'a list list \<Rightarrow> js_error + 'a option list" where
  "flatten arr =
     (case arr of
        [] \<Rightarrow> Inl TypeError
      | r0 # _ \<Rightarrow> Inr (concat (map (\<lambda>row. map (nth_opt row) [0..<length r0]) arr)))"

text \<open>
  \<^verbatim>\<open>mat_mul(a, b)\<close>: \<^verbatim>\<open>a[0].length\<close> and \<^verbatim>\<open>b[0].length\<close> throw on an empty matrix, and
  \<^verbatim>\<open>b[k][j]\<close> throws when \<open>b\<close> has no row \<open>k\<close>; a missing entry of a row is \<^verbatim>\<open>undefined\<close>.
  Each entry of the product starts at 0 and accumulates in the order of \<open>k\<close>.
\<close>

definition mat_mul ::
  "solver_env \<Rightarrow> jsnum option list list \<Rightarrow> jsnum list list \<Rightarrow> js_error + jsnum list list" where
  "mat_mul env a b =
     (case a of
        [] \<Rightarrow> Inl TypeError
      | a0 # _ \<Rightarrow>
          (case b of
             [] \<Rightarrow> Inl TypeError
           | b0 # _ \<Rightarrow>
               if 0 < length b0 \<and> length b < length a0 then Inl TypeError
               else Inr (map (\<lambda>i. map (\<lambda>j. fold (\<lambda>k acc. fadd env acc
                                                        (fmul env (to_num (elem (a ! i) k))
                                                                  (to_num (nth_opt (b ! k) j))))
                                                  [0..<length a0] (Fin 0))
                                         [0..<length b0])
                             [0..<length a])))"

definition mat_add :: "solver_env \<Rightarrow> jsnum list \<Rightarrow> jsnum list \<Rightarrow> jsnum list" where
  "mat_add env a b = map (\<lambda>i. fadd env (a ! i) (to_num (nth_opt b i))) [0..<length a]"

definition max_soft :: "solver_env \<Rightarrow> jsnum list \<Rightarrow> jsnum list" where
  "max_soft env a =
     (let s = fold (\<lambda>f s. fadd env s (fexp env f)) a (Fin 0)
      in map (\<lambda>x. fdiv env (fexp env x) s) a)"

definition label_txt :: string where
  "label_txt = ''ABCDEFGHJKLMNPQRSTUVWXYZ23456789''"

text \<open>
  \<^verbatim>\<open>out += label_txt[k]\<close>: outside the string the index gives \<^verbatim>\<open>undefined\<close>, and the nine
  characters of \<^verbatim>\<open>"undefined"\<close> are appended.
\<close>

definition label_at :: "int \<Rightarrow> string" where
  "label_at k = (if 0 \<le> k \<and> nat k < length label_txt then [label_txt ! nat k]
                 else ''undefined'')"

definition pick_label :: "jsnum list \<Rightarrow> string" where
  "pick_label probs = label_at (indexOf probs (math_max probs))"

text \<open>
  One pass of the loop over the six cells, up to \<^verbatim>\<open>max_soft\<close>. The product of the
  one-row matrix \<^verbatim>\<open>[flatten(cell)]\<close> has one row, which \<^verbatim>\<open>mat_add(...product, biases)\<close>
  receives as its first argument.
\<close>

definition cell_probs :: "solver_env \<Rightarrow> jsnum option list list \<Rightarrow> js_error + jsnum list" where
  "cell_probs env cell =
     (case flatten (pre_img cell) of
        Inl e \<Rightarrow> Inl e
      | Inr v \<Rightarrow>
          (case mat_mul env [v] (weights env) of
             Inl e \<Rightarrow> Inl e
           | Inr product \<Rightarrow>
               (case product of
                  [row] \<Rightarrow> Inr (max_soft env (mat_add env row (biases env)))
                | _ \<Rightarrow> Inl TypeError)))"

fun classify_cells :: "solver_env \<Rightarrow> jsnum option list list list \<Rightarrow> js_error + string" where
  "classify_cells env [] = Inr []"
| "classify_cells env (cell # cells) =
     (case cell_probs env cell of
        Inl e \<Rightarrow> Inl e
      | Inr probs \<Rightarrow>
          (case classify_cells env cells of
             Inl e \<Rightarrow> Inl e
           | Inr out \<Rightarrow> Inr (pick_label probs @ out)))"

text \<open>
  The body of the \<^verbatim>\<open>try\<close>: decoding, the loop over the cells, then
  \<^verbatim>\<open>fs.unlinkSync(tempFilePath)\<close>, which is reached only when nothing has thrown before (a
  failed call leaves the file behind). The result is the string with the files the call
  leaves.
\<close>

definition solve_body :: "solver_env \<Rightarrow> string \<Rightarrow> js_error + string \<times> files" where
  "solve_body env base64String =
     (case decode_cells env base64String of
        Inl e \<Rightarrow> Inl e
      | Inr (bls, fs) \<Rightarrow>
          (case classify_cells env bls of
             Inl e \<Rightarrow> Inl e
           | Inr out \<Rightarrow>
               (case unlinkSync fs of
                  Inl e \<Rightarrow> Inl e
                | Inr fs' \<Rightarrow> Inr (out, fs'))))"

text \<open>\<^verbatim>\<open>try { ... return out; } catch (error) { return null; }\<close>\<close>

definition solveCaptchaFromBase64 :: "solver_env \<Rightarrow> string \<Rightarrow> string option" where
  "solveCaptchaFromBase64 env base64String =
     (case solve_body env base64String of
        Inl e \<Rightarrow> None
      | Inr (out, fs) \<Rightarrow> Some out)"

section \<open>Pipeline A: template matcher (captchasolver.js, captcha_parse)\<close>

text \<open>
  \<^verbatim>\<open>imgarr\<close> is an array of rows of integer intensities; an entry that was never written is
  \<^verbatim>\<open>undefined\<close> (\<open>None\<close>). The templates come from \<^verbatim>\<open>bitmaps.json\<close>, which is not part of the
  sources: \<open>bitmaps c\<close> is the array stored under the key \<open>c\<close>, if any.
\<close>

type_synonym grid = "int option list list"

type_synonym templates = "char \<Rightarrow> int list list option"

text \<open>\<^verbatim>\<open>row[y] = v\<close> extends a row that is too short.\<close>

definition row_set :: "'a option list \<Rightarrow> nat \<Rightarrow> 'a \<Rightarrow> 'a option list" where
  "row_set row y v =
     (if y < length row then row[y := Some v]
      else row @ replicate (y - length row) None @ [Some v])"

text \<open>
  The body of the cleaning loops at \<open>(x, y)\<close>, with \<open>1 \<le> x\<close>. \<^verbatim>\<open>condition1\<close> reads row \<open>x\<close>;
  \<^verbatim>\<open>condition2\<close> reads row \<open>x + 1\<close> only when its first two conjuncts hold.
\<close>

definition clean_px :: "grid \<Rightarrow> nat \<Rightarrow> nat \<Rightarrow> js_error + grid" where
  "clean_px imgarr x y =
     (if length imgarr \<le> x then Inl TypeError
      else
        let row = imgarr ! x;
            condition1 = (elem row (y - 1) = Some 255 \<and> elem row y = Some 0
                          \<and> elem row (y + 1) = Some 255)
        in if elem (imgarr ! (x - 1)) y = Some 255 \<and> elem row y = Some 0
              \<and> length imgarr \<le> x + 1
           then Inl TypeError
           else
             let condition2 = (elem (imgarr ! (x - 1)) y = Some 255 \<and> elem row y = Some 0
                               \<and> elem (imgarr ! (x + 1)) y = Some 255);
                 condition3 = (elem row y \<noteq> Some 255 \<and> elem row y \<noteq> Some 0)
             in if condition1 \<or> condition2 \<or> condition3
                then Inr (imgarr[x := row_set row y 255])
                else Inr imgarr)"

definition clean :: "grid \<Rightarrow> js_error + grid" where
  "clean imgarr =
     for_each (\<lambda>g x. for_each (\<lambda>g y. clean_px g x y) [1..<179] g) [1..<44] imgarr"

text \<open>
  The body of the matching loops at \<open>(x, y)\<close> for the band that ends before column \<open>j\<close>.
  \<^verbatim>\<open>==\<close> on two values that are numbers or \<^verbatim>\<open>undefined\<close> is equality.
\<close>

definition compare_px ::
  "grid \<Rightarrow> int list list \<Rightarrow> nat \<Rightarrow> nat \<Rightarrow> nat \<Rightarrow> nat \<times> nat \<Rightarrow> js_error + nat \<times> nat" where
  "compare_px imgarr tmpl j x y mb =
     (case mb of
        (match, black) \<Rightarrow>
          let y1 = y + j - 30;
              x1 = x + 12
          in if length imgarr \<le> x1 \<or> length tmpl \<le> x then Inl TypeError
             else
               let iv = elem (imgarr ! x1) y1;
                   mv = nth_opt (tmpl ! x) y
               in Inr (if iv = mv \<and> mv = Some 0 then match + 1 else match,
                       if mv = Some 0 then black + 1 else black))"

definition symbol_score :: "grid \<Rightarrow> int list list option \<Rightarrow> nat \<Rightarrow> js_error + jsnum" where
  "symbol_score imgarr tmpl j =
     (case tmpl of
        None \<Rightarrow> Inl TypeError
      | Some m \<Rightarrow>
          (case for_each (\<lambda>mb x. for_each (\<lambda>mb y. compare_px imgarr m j x y mb) [0..<30] mb)
                  [0..<32] (0, 0) of
             Inl e \<Rightarrow> Inl e
           | Inr (match, black) \<Rightarrow> Inr (js_div (Fin (of_nat match)) (Fin (of_nat black)))))"

definition chars :: string where
  "chars = ''123456789ABCDEFGHIJKLMNPQRSTUVWXYZ''"

fun band_matches :: "templates \<Rightarrow> grid \<Rightarrow> nat \<Rightarrow> string \<Rightarrow> js_error + (jsnum \<times> string) list" where
  "band_matches bitmaps imgarr j [] = Inr []"
| "band_matches bitmaps imgarr j (ch # rest) =
     (case symbol_score imgarr (bitmaps ch) j of
        Inl e \<Rightarrow> Inl e
      | Inr perc \<Rightarrow>
          (case band_matches bitmaps imgarr j rest of
             Inl e \<Rightarrow> Inl e
           | Inr matches \<Rightarrow> Inr ((perc, [ch]) # matches)))"

text \<open>
  \<^verbatim>\<open>matches.reduce(function (a, b) { return a[0] > b[0] ? a : b; }, [0, 0])[1]\<close>: \<open>a\<close> is
  the accumulator and \<open>b\<close> the element. Appending the number 0 of the initial pair to the
  string would append \<^verbatim>\<open>"0"\<close>.
\<close>

definition best_match :: "(jsnum \<times> string) list \<Rightarrow> string" where
  "best_match matches =
     snd (fold (\<lambda>b a. if js_gt (fst a) (fst b) then a else b) matches (Fin 0, ''0''))"

fun match_bands :: "templates \<Rightarrow> grid \<Rightarrow> nat list \<Rightarrow> js_error + string" where
  "match_bands bitmaps imgarr [] = Inr []"
| "match_bands bitmaps imgarr (j # js) =
     (case band_matches bitmaps imgarr j chars of
        Inl e \<Rightarrow> Inl e
      | Inr matches \<Rightarrow>
          (case match_bands bitmaps imgarr js of
             Inl e \<Rightarrow> Inl e
           | Inr captcha \<Rightarrow> Inr (best_match matches @ captcha)))"

text \<open>\<^verbatim>\<open>for (let j = 30; j < 181; j += 30)\<close> runs through 30, 60, 90, 120, 150, 180.\<close>

definition captcha_parse :: "templates \<Rightarrow> grid \<Rightarrow> js_error + string" where
  "captcha_parse bitmaps imgarr =
     (case clean imgarr of
        Inl e \<Rightarrow> Inl e
      | Inr cleaned \<Rightarrow> match_bands bitmaps cleaned [30, 60, 90, 120, 150, 180])"

text \<open>
  The score in the words of the specification, for the band number \<open>n\<close> (1 to 6): the
  foreground pixels of a template are its entries equal to 0 among the 32 by 30 positions;
  the score is the number of them that are also 0 in the image region (rows 12 to 43,
  columns \<open>30 * n - 30\<close> to \<open>30 * n - 1\<close>), divided by their total number.
\<close>

definition template_foreground :: "int list list \<Rightarrow> (nat \<times> nat) list" where
  "template_foreground tmpl =
     filter (\<lambda>(x, y). nth_opt (tmpl ! x) y = Some 0) (List.product [0..<32] [0..<30])"

definition band_overlap :: "grid \<Rightarrow> int list list \<Rightarrow> nat \<Rightarrow> (nat \<times> nat) list" where
  "band_overlap g tmpl n =
     filter (\<lambda>(x, y). elem (g ! (x + 12)) (y + (30 * n - 30)) = Some 0)
       (template_foreground tmpl)"

definition score_spec :: "grid \<Rightarrow> int list list \<Rightarrow> nat \<Rightarrow> rat" where
  "score_spec g tmpl n =
     of_nat (length (band_overlap g tmpl n)) / of_nat (length (template_foreground tmpl))"

text \<open>
  Index \<open>i\<close> has the highest value of \<open>f\<close> among the indices below \<open>n\<close> and is the last
  index that has it.
\<close>

definition last_highest :: "(nat \<Rightarrow> rat) \<Rightarrow> nat \<Rightarrow> nat \<Rightarrow> bool" where
  "last_highest f n i =
     (i < n \<and> (\<forall>k<n. f k \<le> f i) \<and> (\<forall>k<n. i < k \<longrightarrow> f k < f i))"

section \<open>Challenge detection and the login loop (app.js)\<close>

text \<open>
  The HTML of a fetched page is read through cheerio selectors and regular expressions.
  A page is represented by the results of exactly the queries the code makes; the parser
  and the regular-expression engine are libraries.
\<close>

record page =
  captchaBlock :: nat
    \<comment> \<open>\<^verbatim>\<open>$("#captchaBlock").length\<close>\<close>
  vtopCaptcha_src :: "string option list"
    \<comment> \<open>the \<^verbatim>\<open>src\<close> attribute of each element of \<^verbatim>\<open>$('img[alt="vtopCaptcha"]')\<close>\<close>
  imgfluid_src :: "string option list"
    \<comment> \<open>the \<^verbatim>\<open>src\<close> attribute of each element of \<^verbatim>\<open>$(".form-control.img-fluid")\<close>\<close>
  captchaType_var :: "nat option"
    \<comment> \<open>\<^verbatim>\<open>parseInt\<close> of the digits captured by \<^verbatim>\<open>/var\s+captchaType\s*=\s*(\d+);/\<close>\<close>
  data_uri :: "string option"
    \<comment> \<open>the text matched by \<^verbatim>\<open>/data:image\/(jpeg|png|gif);base64,[^"]+/\<close>\<close>
  img_src :: "string option list"
    \<comment> \<open>the \<^verbatim>\<open>src\<close> attribute of each element of \<^verbatim>\<open>$("img")\<close>, in document order\<close>
  input_csrf :: "string option"
    \<comment> \<open>\<^verbatim>\<open>$('input[name="_csrf"]').val()\<close>\<close>
  meta_csrf :: "string option"
    \<comment> \<open>\<^verbatim>\<open>$('meta[name="_csrf"]').attr("content")\<close>\<close>

text \<open>\<^verbatim>\<open>.attr(name)\<close> reads the first selected element; \<^verbatim>\<open>a || b\<close> on strings.\<close>

definition first_attr :: "string option list \<Rightarrow> string option" where
  "first_attr xs = (case xs of [] \<Rightarrow> None | a # _ \<Rightarrow> a)"

definition js_or :: "string option \<Rightarrow> string option \<Rightarrow> string option" where
  "js_or a b = (if truthy a then a else b)"

text \<open>\<^verbatim>\<open>html.includes(pat)\<close>: \<open>pat\<close> occurs in \<open>html\<close> as a contiguous substring.\<close>

fun js_includes :: "string \<Rightarrow> string \<Rightarrow> bool" where
  "js_includes [] pat = (pat = [])"
| "js_includes (c # cs) pat = (prefix pat (c # cs) \<or> js_includes cs pat)"

definition detectCaptchaType :: "page \<Rightarrow> string" where
  "detectCaptchaType p =
     (if captchaBlock p \<noteq> 0 \<or> length (vtopCaptcha_src p) \<noteq> 0 \<or> length (imgfluid_src p) \<noteq> 0
      then ''inbuilt''
      else if captchaType_var p = Some 1 then ''inbuilt''
      else if data_uri p \<noteq> None then ''inbuilt''
      else ''unknown'')"

definition extractCaptchaImage :: "page \<Rightarrow> string option" where
  "extractCaptchaImage p =
     (let captchaImg = js_or (first_attr (vtopCaptcha_src p)) (first_attr (imgfluid_src p))
      in if truthy captchaImg then captchaImg
         else if data_uri p \<noteq> None then data_uri p
         else let anyImg = first_attr (img_src p)
              in if truthy anyImg \<and> js_includes (the anyImg) ''base64'' then anyImg else None)"

text \<open>
  The remote portal and the collaborators of the login loop. A network call either throws
  (a rejected promise: transport error or timeout) or returns. The portal answers the
  \<open>k\<close>-th GET of the setup page and the \<open>k\<close>-th POST of the login URL (counted from 0);
  \<open>solver\<close> holds the canvas library, the arithmetic and the weights of the CAPTCHA solver,
  with the files and the other requests as a call of the solver finds them (what an
  earlier call left in the temporary file has no influence: the call overwrites it).
  The world counts the GETs and POSTs made and records, for each POST, the number of GETs
  made before it and the URL.
\<close>

datatype 'a outcome = Throws | Returns 'a

record remote =
  get_page :: "nat \<Rightarrow> page outcome"
  post_login :: "nat \<Rightarrow> string \<Rightarrow> string outcome"
  solver :: solver_env
  encodeURIComponent :: "string \<Rightarrow> string"

record world =
  gets :: nat
  posts :: nat
  submitted :: "(nat \<times> string) list"

text \<open>One pass of the body of the \<^verbatim>\<open>for\<close> loop of \<^verbatim>\<open>fetchWithSession\<close>, after the GET.\<close>

definition challenge :: "remote \<Rightarrow> page \<Rightarrow> (string \<times> string) option" where
  "challenge env p =
     (if detectCaptchaType p = ''inbuilt''
      then let csrfToken = js_or (input_csrf p) (meta_csrf p);
               captchaImage = extractCaptchaImage p
           in if truthy captchaImage \<and> truthy csrfToken
              then (case solveCaptchaFromBase64 (solver env) (the captchaImage) of
                      Some captchaSolution \<Rightarrow>
                        if captchaSolution \<noteq> [] then Some (the csrfToken, captchaSolution)
                        else None
                    | None \<Rightarrow> None)
              else None
      else None)"

text \<open>
  \<^verbatim>\<open>for (let attempt = 1; attempt <= maxAttempts; attempt++)\<close> with \<^verbatim>\<open>maxAttempts = 10\<close>,
  inside one \<^verbatim>\<open>try\<close>: a GET that throws leaves the loop and the function returns
  \<^verbatim>\<open>null\<close>. The 500 ms pause between attempts is not modelled.
\<close>

function fetch_attempts :: "remote \<Rightarrow> nat \<Rightarrow> world \<Rightarrow> (string \<times> string) option \<times> world" where
  "fetch_attempts env attempt w =
     (if attempt \<le> 10
      then (case get_page env (gets w) of
              Throws \<Rightarrow> (None, w\<lparr>gets := Suc (gets w)\<rparr>)
            | Returns p \<Rightarrow>
                (case challenge env p of
                   Some c \<Rightarrow> (Some c, w\<lparr>gets := Suc (gets w)\<rparr>)
                 | None \<Rightarrow> fetch_attempts env (Suc attempt) (w\<lparr>gets := Suc (gets w)\<rparr>)))
      else (None, w))"
  by pat_completeness auto
termination
  by (relation "measure (\<lambda>(env, attempt, w). 11 - attempt)") auto

declare fetch_attempts.simps [simp del]

definition fetchWithSession :: "remote \<Rightarrow> world \<Rightarrow> (string \<times> string) option \<times> world" where
  "fetchWithSession env w = fetch_attempts env 1 w"

definition checkResponseForErrors :: "string \<Rightarrow> string option" where
  "checkResponseForErrors html =
     (if html = [] then None
      else if js_includes html ''Invalid LoginId/Password'' then Some ''credentials''
      else if js_includes html ''Invalid Captcha'' then Some ''captcha''
      else None)"

datatype login_result = LoginFailure string | LoginSuccess string

definition loginUrl :: "remote \<Rightarrow> string \<Rightarrow> string \<Rightarrow> string \<Rightarrow> string \<Rightarrow> string" where
  "loginUrl env csrfToken username password captchaSolution =
     ''https://vtop.vit.ac.in/vtop/login?_csrf='' @ csrfToken
       @ ''&username='' @ encodeURIComponent env username
       @ ''&password='' @ encodeURIComponent env password
       @ ''&captchaStr='' @ captchaSolution"

text \<open>
  \<^verbatim>\<open>while (attempt < maxAttempts) { attempt++; ... }\<close> with \<^verbatim>\<open>maxAttempts = 5\<close>. A failed
  fetch, a POST that throws and an invalid-CAPTCHA answer all go to the next iteration.
\<close>

function login_attempts ::
  "remote \<Rightarrow> string \<Rightarrow> string \<Rightarrow> nat \<Rightarrow> world \<Rightarrow> login_result \<times> world" where
  "login_attempts env username password attempt w =
     (if attempt < 5
      then (case fetchWithSession env w of
              (None, w1) \<Rightarrow> login_attempts env username password (Suc attempt) w1
            | (Some (csrfToken, captchaSolution), w1) \<Rightarrow>
                if csrfToken = [] \<or> captchaSolution = []
                then login_attempts env username password (Suc attempt) w1
                else
                  (case post_login env (posts w1)
                          (loginUrl env csrfToken username password captchaSolution) of
                     Throws \<Rightarrow>
                       login_attempts env username password (Suc attempt)
                         (w1\<lparr>posts := Suc (posts w1),
                             submitted := submitted w1 @
                               [(gets w1, loginUrl env csrfToken username password captchaSolution)]\<rparr>)
                   | Returns body \<Rightarrow>
                       if checkResponseForErrors body = Some ''credentials''
                       then (LoginFailure ''Invalid credentials'',
                             w1\<lparr>posts := Suc (posts w1),
                                 submitted := submitted w1 @
                                   [(gets w1, loginUrl env csrfToken username password captchaSolution)]\<rparr>)
                       else if checkResponseForErrors body = Some ''captcha''
                       then login_attempts env username password (Suc attempt)
                              (w1\<lparr>posts := Suc (posts w1),
                                  submitted := submitted w1 @
                                    [(gets w1, loginUrl env csrfToken username password captchaSolution)]\<rparr>)
                       else (LoginSuccess body,
                             w1\<lparr>posts := Suc (posts w1),
                                 submitted := submitted w1 @
                                   [(gets w1, loginUrl env csrfToken username password captchaSolution)]\<rparr>)))
      else (LoginFailure ''Maximum login attempts reached'', w))"
  by pat_completeness auto
termination
  by (relation "measure (\<lambda>(env, username, password, attempt, w). 5 - attempt)") auto

declare login_attempts.simps [simp del]

definition attemptLogin ::
  "remote \<Rightarrow> string \<Rightarrow> string \<Rightarrow> nat option \<Rightarrow> world \<Rightarrow> login_result \<times> world" where
  "attemptLogin env username password cl w =
     (case cl of
        None \<Rightarrow> (LoginFailure ''No client provided'', w)
      | Some c \<Rightarrow> login_attempts env username password 0 w)"

definition new_world :: world where
  "new_world = \<lparr>gets = 0, posts = 0, submitted = []\<rparr>"

text \<open>
  For the statements about the loop: the first challenge that \<open>n\<close> successive calls of
  \<^verbatim>\<open>fetchWithSession\<close> obtain, with the world after the call that obtained it; \<open>None\<close> when
  none of them obtains one.
\<close>

fun first_challenge :: "remote \<Rightarrow> nat \<Rightarrow> world \<Rightarrow> ((string \<times> string) \<times> world) option" where
  "first_challenge env 0 w = None"
| "first_challenge env (Suc n) w =
     (case fetchWithSession env w of
        (Some c, w1) \<Rightarrow> Some (c, w1)
      | (None, w1) \<Rightarrow> first_challenge env n w1)"

section \<open>Sample inputs\<close>

text \<open>
  Sample inputs for the solver: a decoded image of 100 by 20 pixels, a canvas that samples
  the nearest source pixel, and a classifier with two classes whose weights and biases are
  all 0. On the values of the sample runs (0, 1, 2 and 1/2, and \<^verbatim>\<open>Math.exp(0) = 1\<close>) the four
  operations below agree with the doubles; \<open>fexp\<close> is given at 0 only. The call runs
  alone, on a file system that accepts writes and holds no temporary file. In the second
  environment another call of the solver, which started earlier, deletes the temporary
  file while this call waits for the loader.
\<close>

definition small_image :: image where
  "small_image = \<lparr>img_width = 100, img_height = 20, img_data = replicate (100 * 20 * 4) 255\<rparr>"

definition nearest_sample :: "image \<Rightarrow> nat \<Rightarrow> nat \<Rightarrow> nat \<Rightarrow> nat \<Rightarrow> nat \<times> nat \<times> nat \<times> nat" where
  "nearest_sample img dw dh x y =
     (let k = 4 * ((y * img_height img div dh) * img_width img + x * img_width img div dw);
          byte = (\<lambda>c. case nth_opt (img_data img) (k + c) of None \<Rightarrow> 0 | Some v \<Rightarrow> v)
      in (byte 0, byte 1, byte 2, byte 3))"

definition sample_env :: solver_env where
  "sample_env =
     \<lparr>files = \<lparr>temp_captcha = None, unwritable = False\<rparr>,
      others_before_load = (\<lambda>fs. fs),
      others_before_resume = (\<lambda>fs. fs),
      loadImage = (\<lambda>s. if s = ''AAAA'' then Some small_image else None),
      sample = nearest_sample,
      fadd = js_add, fmul = js_mul, fdiv = js_div,
      fexp = (\<lambda>x. if x = Fin 0 then Fin 1 else NaN),
      weights = replicate 528 [Fin 0, Fin 0],
      biases = [Fin 0, Fin 0]\<rparr>"

definition overlapped_env :: solver_env where
  "overlapped_env = sample_env\<lparr>others_before_resume := (\<lambda>fs. fs\<lparr>temp_captcha := None\<rparr>)\<rparr>"

text \<open>
  Sample inputs for the template matcher: a grid of 45 rows of 180 zeros, one template with
  all 32 by 30 entries 0 stored under every symbol, a grid of 44 rows of 179 entries
  that is 255 everywhere but on its last row, which is 0, and a grid of 44 rows of 179
  entries that is 255 everywhere.
\<close>

definition zero_grid :: grid where
  "zero_grid = replicate 45 (replicate 180 (Some 0))"

definition full_template :: "int list list" where
  "full_template = replicate 32 (replicate 30 0)"

definition same_bitmaps :: templates where
  "same_bitmaps = (\<lambda>c. Some full_template)"

definition dark_last_row :: grid where
  "dark_last_row = replicate 43 (replicate 179 (Some 255)) @ [replicate 179 (Some 0)]"

definition white_grid :: grid where
  "white_grid = replicate 44 (replicate 179 (Some 255))"

text \<open>
  Sample portals for the scenarios, what the remote mock of a test would be: one whose
  every page carries a CAPTCHA image and a token (\<open>tok0\<close> on the first page, \<open>tok1\<close> on
  the later ones) and whose \<open>k\<close>-th submit is answered by \<open>answers k\<close>, one whose pages
  are blank, and one whose pages are blank and that would answer every submit with the
  credentials error. All use the sample solver.
\<close>

definition captcha_page :: "string \<Rightarrow> page" where
  "captcha_page token =
     \<lparr>captchaBlock = 1,
      vtopCaptcha_src = [Some ''data:image/jpeg;base64,AAAA''],
      imgfluid_src = [],
      captchaType_var = None,
      data_uri = Some ''data:image/jpeg;base64,AAAA'',
      img_src = [Some ''data:image/jpeg;base64,AAAA''],
      input_csrf = Some token,
      meta_csrf = None\<rparr>"

definition blank_page :: page where
  "blank_page =
     \<lparr>captchaBlock = 0, vtopCaptcha_src = [], imgfluid_src = [], captchaType_var = None,
      data_uri = None, img_src = [], input_csrf = None, meta_csrf = None\<rparr>"

definition mock_remote :: "(nat \<Rightarrow> string) \<Rightarrow> remote" where
  "mock_remote answers =
     \<lparr>get_page = (\<lambda>k. Returns (captcha_page (if k = 0 then ''tok0'' else ''tok1''))),
      post_login = (\<lambda>k url. Returns (answers k)),
      solver = sample_env,
      encodeURIComponent = (\<lambda>s. s)\<rparr>"


definition refusing_blank_remote :: remote where
  "refusing_blank_remote =
     \<lparr>get_page = (\<lambda>k. Returns blank_page),
      post_login = (\<lambda>k url. Returns ''<p>Invalid LoginId/Password</p>''),
      solver = sample_env,
      encodeURIComponent = (\<lambda>s. s)\<rparr>"

section \<open>Properties of the session registry\<close>

lemma sweep_entries_filter:
  "sweep_entries now es m =
     filter (\<lambda>(k, v). \<not> (\<exists>s. (k, s) \<in> set es \<and> now - lastUsed s > SESSION_TIMEOUT)) m"
proof (induction es arbitrary: m)
  case Nil
  show ?case by simp
next
  case (Cons e es)
  obtain u s where e: "e = (u, s)" by (cases e)
  show ?case
    unfolding e sweep_entries.simps Cons.IH
    by (auto simp: AList.delete_eq intro!: filter_cong)
qed

lemma sweep_entries_expired_absent:
  assumes "map_of m u = Some s" and "now - lastUsed s > SESSION_TIMEOUT"
  shows "map_of (sweep_entries now m m) u = None"
proof -
  from assms(1) have "(u, s) \<in> set m" by (rule map_of_SomeD)
  with assms(2) have "u \<notin> fst ` set (sweep_entries now m m)"
    unfolding sweep_entries_filter by auto
  then show ?thesis by (simp add: map_of_eq_None_iff)
qed

lemma sweep_entries_fresh_kept:
  assumes "distinct (map fst m)" and "map_of m u = Some s"
    and "\<not> now - lastUsed s > SESSION_TIMEOUT"
  shows "map_of (sweep_entries now m m) u = Some s"
proof -
  have "\<And>s'. (u, s') \<in> set m \<Longrightarrow> s' = s"
    using assms(1,2) by (metis map_of_is_SomeI option.inject)
  then have keep: "\<not> (\<exists>s'. (u, s') \<in> set m \<and> now - lastUsed s' > SESSION_TIMEOUT)"
    using assms(3) by blast
  have "(u, s) \<in> set m" using assms(2) by (rule map_of_SomeD)
  with keep have "(u, s) \<in> set (sweep_entries now m m)"
    unfolding sweep_entries_filter by simp
  moreover have "distinct (map fst (sweep_entries now m m))"
    unfolding sweep_entries_filter using assms(1) by (rule distinct_map_filter)
  ultimately show ?thesis by (simp add: map_of_is_SomeI)
qed

lemma getUserClient_distinct:
  "distinct (map fst (userSessions srv)) \<Longrightarrow>
   distinct (map fst (userSessions (snd (getUserClient now u srv))))"
  by (auto simp: getUserClient_def create_session_def getNewClient_def
        AList.distinct_update AList.distinct_delete split: option.splits)

lemma sweep_distinct:
  "distinct (map fst (userSessions srv)) \<Longrightarrow>
   distinct (map fst (userSessions (sweep now srv)))"
  by (simp add: sweep_def sweep_entries_filter distinct_map_filter)

lemma sweep_entries_sound:
  assumes "map_of (sweep_entries now m m) v = Some s'"
  shows "now - lastUsed s' \<le> SESSION_TIMEOUT"
proof -
  from assms have "(v, s') \<in> set (sweep_entries now m m)" by (rule map_of_SomeD)
  then have "(v, s') \<in> set m"
    and "\<not> (\<exists>s. (v, s) \<in> set m \<and> now - lastUsed s > SESSION_TIMEOUT)"
    unfolding sweep_entries_filter by auto
  then show ?thesis by force
qed

lemma getUserClient_reuse:
  assumes "map_of (userSessions srv) u = Some s" and "t - lastUsed s < SESSION_TIMEOUT"
  shows "getUserClient t u srv =
           (client s, srv\<lparr>userSessions := AList.update u (s\<lparr>lastUsed := t\<rparr>) (userSessions srv)\<rparr>)"
  using assms by (simp add: getUserClient_def)

text \<open>
  C8. A session whose \<open>lastUsed\<close> is older than the idle timeout when the sweep runs is
  absent from the registry afterwards, and no session that old is left for any user. A
  reuse through \<open>getUserClient\<close> returns the same client and stamps the session with the
  time of the call, so that the sweep that follows within one sweep interval keeps it.
\<close>

theorem sweep_evicts_idle_and_reuse_refreshes:
  assumes "distinct (map fst (userSessions srv))"
  shows "(map_of (userSessions srv) u = Some s \<longrightarrow> SESSION_TIMEOUT < now - lastUsed s \<longrightarrow>
            map_of (userSessions (sweep now srv)) u = None)
       \<and> (\<forall>v s'. map_of (userSessions (sweep now srv)) v = Some s' \<longrightarrow>
            now - lastUsed s' \<le> SESSION_TIMEOUT)
       \<and> (map_of (userSessions srv) u = Some s \<longrightarrow> t - lastUsed s < SESSION_TIMEOUT \<longrightarrow>
            t' - t \<le> SWEEP_INTERVAL \<longrightarrow>
            fst (getUserClient t u srv) = client s \<and>
            map_of (userSessions (sweep t' (snd (getUserClient t u srv)))) u
              = Some (s\<lparr>lastUsed := t\<rparr>))"
proof (intro conjI impI allI)
  assume "map_of (userSessions srv) u = Some s" and "SESSION_TIMEOUT < now - lastUsed s"
  then show "map_of (userSessions (sweep now srv)) u = None"
    by (simp add: sweep_def sweep_entries_expired_absent)
next
  fix v s'
  assume "map_of (userSessions (sweep now srv)) v = Some s'"
  then show "now - lastUsed s' \<le> SESSION_TIMEOUT"
    by (simp add: sweep_def sweep_entries_sound)
next
  assume s: "map_of (userSessions srv) u = Some s" and fresh: "t - lastUsed s < SESSION_TIMEOUT"
  then show "fst (getUserClient t u srv) = client s"
    by (simp add: getUserClient_reuse)
next
  assume s: "map_of (userSessions srv) u = Some s" and fresh: "t - lastUsed s < SESSION_TIMEOUT"
    and soon: "t' - t \<le> SWEEP_INTERVAL"
  let ?m = "AList.update u (s\<lparr>lastUsed := t\<rparr>) (userSessions srv)"
  have d: "distinct (map fst ?m)"
    using assms by (simp add: AList.distinct_update)
  have l: "map_of ?m u = Some (s\<lparr>lastUsed := t\<rparr>)"
    by (simp add: AList.update_conv')
  have k: "\<not> t' - lastUsed (s\<lparr>lastUsed := t\<rparr>) > SESSION_TIMEOUT"
    using soon by (simp add: SWEEP_INTERVAL_def SESSION_TIMEOUT_def)
  show "map_of (userSessions (sweep t' (snd (getUserClient t u srv)))) u
          = Some (s\<lparr>lastUsed := t\<rparr>)"
    using sweep_entries_fresh_kept [OF d l k]
    by (simp add: getUserClient_reuse [OF s fresh] sweep_def)
qed

theorem sweep_evicts_idle_and_reuse_refreshes_witness:
  "distinct (map fst (userSessions sample_server))
   \<and> map_of (userSessions sample_server) ''stu1'' = Some sample_session
   \<and> SESSION_TIMEOUT < 400000 - lastUsed sample_session
   \<and> map_of (userSessions (sweep 400000 sample_server)) ''stu1'' = None
   \<and> map_of (userSessions (sweep 200000 sample_server)) ''stu1'' = Some sample_session
   \<and> 200000 - lastUsed sample_session \<le> SESSION_TIMEOUT
   \<and> 1000 - lastUsed sample_session < SESSION_TIMEOUT
   \<and> (200000::int) - 1000 \<le> SWEEP_INTERVAL
   \<and> fst (getUserClient 1000 ''stu1'' sample_server) = 0
   \<and> map_of (userSessions (sweep 200000 (snd (getUserClient 1000 ''stu1'' sample_server))))
         ''stu1'' = Some (sample_session\<lparr>lastUsed := 1000\<rparr>)"
  using sweep_evicts_idle_and_reuse_refreshes
          [of sample_server "''stu1''" sample_session 400000 1000 200000]
  by (simp add: sample_server_def sample_session_def SESSION_TIMEOUT_def SWEEP_INTERVAL_def
        sweep_def)

subsection \<open>Simultaneous requests for one new user\<close>

lemma start_pending:
  assumes "u \<noteq> []" and "pw \<noteq> []"
    and "map_of (userSessions srv) u = Some s" and "now - lastUsed s < SESSION_TIMEOUT"
    and "\<not> (truthy (studentId s) \<and> truthy (csrf s))"
  shows "initialdata_start now u pw srv =
           (StartLogin (client s),
            srv\<lparr>userSessions := AList.update u (s\<lparr>lastUsed := now\<rparr>) (userSessions srv),
                logins_started := Suc (logins_started srv)\<rparr>)"
  using assms by (simp add: initialdata_start_def getUserClient_def AList.update_conv')

lemma starts_pending:
  assumes "u \<noteq> []" and "pw \<noteq> []"
    and "map_of (userSessions srv) u = Some s"
    and "\<not> (truthy (studentId s) \<and> truthy (csrf s))"
    and "\<forall>t\<in>set nows. t - lastUsed s < SESSION_TIMEOUT"
    and "\<forall>t\<in>set nows. \<forall>t'\<in>set nows. t - t' < SESSION_TIMEOUT"
  shows "simultaneous_starts nows u pw srv =
           (replicate (length nows) (StartLogin (client s)),
            srv\<lparr>userSessions :=
                  AList.update u (s\<lparr>lastUsed := last (lastUsed s # nows)\<rparr>) (userSessions srv),
                logins_started := logins_started srv + length nows\<rparr>)"
  using assms(3-6)
proof (induction nows arbitrary: srv s)
  case Nil
  have "s\<lparr>lastUsed := lastUsed s\<rparr> = s" by simp
  then show ?case using Nil.prems(1) by (simp add: AList.update_triv)
next
  case (Cons t nows)
  let ?s1 = "s\<lparr>lastUsed := t\<rparr>"
  let ?srv1 = "srv\<lparr>userSessions := AList.update u ?s1 (userSessions srv),
                  logins_started := Suc (logins_started srv)\<rparr>"
  have step: "initialdata_start t u pw srv = (StartLogin (client s), ?srv1)"
    using assms(1,2) Cons.prems(1) _ Cons.prems(2) by (rule start_pending) (simp add: Cons.prems(3))
  have 1: "map_of (userSessions ?srv1) u = Some ?s1" by (simp add: AList.update_conv')
  have 2: "\<not> (truthy (studentId ?s1) \<and> truthy (csrf ?s1))" using Cons.prems(2) by simp
  have 3: "\<forall>t'\<in>set nows. t' - lastUsed ?s1 < SESSION_TIMEOUT" using Cons.prems(4) by simp
  have 4: "\<forall>t\<in>set nows. \<forall>t'\<in>set nows. t - t' < SESSION_TIMEOUT" using Cons.prems(4) by simp
  from Cons.IH [OF 1 2 3 4] step show ?case by simp
qed

lemma start_new:
  assumes "u \<noteq> []" and "pw \<noteq> []" and "map_of (userSessions srv) u = None"
  shows "initialdata_start now u pw srv =
           (StartLogin (clients_made srv),
            srv\<lparr>userSessions :=
                  AList.update u
                    \<lparr>client = clients_made srv, studentId = None, csrf = None, lastUsed = now\<rparr>
                    (userSessions srv),
                clients_made := Suc (clients_made srv),
                logins_started := Suc (logins_started srv)\<rparr>)"
  using assms
  by (simp add: initialdata_start_def getUserClient_def create_session_def getNewClient_def
        AList.update_conv' truthy_def)

text \<open>
  C9, as the claim states it, fails: two simultaneous requests for the same new user
  start two logins, not one.
\<close>

theorem two_simultaneous_starts_two_logins:
  "map_of (userSessions empty_server) ''stu1'' = None
   \<and> simultaneous_starts [0, 0] ''stu1'' ''pw1'' empty_server
       = ([StartLogin 0, StartLogin 0],
          \<lparr>userSessions =
              [(''stu1'', \<lparr>client = 0, studentId = None, csrf = None, lastUsed = 0\<rparr>)],
           clients_made = 1, logins_started = 2\<rparr>)
   \<and> logins_started (snd (simultaneous_starts [0, 0] ''stu1'' ''pw1'' empty_server)) \<noteq> 1"
  by (simp add: empty_server_def initialdata_start_def getUserClient_def
        create_session_def getNewClient_def truthy_def SESSION_TIMEOUT_def)

text \<open>
  C9, amended. Simultaneous requests for a user with no session, arriving within one idle
  timeout of each other, make one client (one cookie jar), shared by all of them, and each
  of the requests starts a login of its own: the registry has no lock and no marker of a
  login in progress.
\<close>

theorem simultaneous_starts_one_client_n_logins:
  assumes "u \<noteq> []" and "pw \<noteq> []" and "map_of (userSessions srv) u = None"
    and "nows \<noteq> []" and "\<forall>t\<in>set nows. \<forall>t'\<in>set nows. t - t' < SESSION_TIMEOUT"
  shows "simultaneous_starts nows u pw srv =
           (replicate (length nows) (StartLogin (clients_made srv)),
            srv\<lparr>userSessions :=
                  AList.update u
                    \<lparr>client = clients_made srv, studentId = None, csrf = None,
                     lastUsed = last nows\<rparr>
                    (userSessions srv),
                clients_made := Suc (clients_made srv),
                logins_started := logins_started srv + length nows\<rparr>)"
proof -
  from assms(4) obtain t ts where nows: "nows = t # ts" by (cases nows) auto
  let ?s = "\<lparr>client = clients_made srv, studentId = None, csrf = None, lastUsed = t\<rparr>"
  let ?srv1 = "srv\<lparr>userSessions := AList.update u ?s (userSessions srv),
                clients_made := Suc (clients_made srv),
                logins_started := Suc (logins_started srv)\<rparr>"
  have 1: "map_of (userSessions ?srv1) u = Some ?s" by (simp add: AList.update_conv')
  have 2: "\<not> (truthy (studentId ?s) \<and> truthy (csrf ?s))" by (simp add: truthy_def)
  have 3: "\<forall>t'\<in>set ts. t' - lastUsed ?s < SESSION_TIMEOUT" using assms(5) by (simp add: nows)
  have 4: "\<forall>t\<in>set ts. \<forall>t'\<in>set ts. t - t' < SESSION_TIMEOUT" using assms(5) by (simp add: nows)
  from starts_pending [OF assms(1,2) 1 2 3 4] start_new [OF assms(1-3), of t]
  show ?thesis unfolding nows by simp
qed

theorem simultaneous_starts_one_client_n_logins_witness:
  "''stu1'' \<noteq> [] \<and> ''pw1'' \<noteq> [] \<and> map_of (userSessions empty_server) ''stu1'' = None
   \<and> [0, 5, 20 :: int] \<noteq> []
   \<and> list_all (\<lambda>t. list_all (\<lambda>t'. t - t' < SESSION_TIMEOUT) [0, 5, 20]) [0, 5, 20]
   \<and> simultaneous_starts [0, 5, 20] ''stu1'' ''pw1'' empty_server
       = ([StartLogin 0, StartLogin 0, StartLogin 0],
          \<lparr>userSessions =
              [(''stu1'', \<lparr>client = 0, studentId = None, csrf = None, lastUsed = 20\<rparr>)],
           clients_made = 1, logins_started = 3\<rparr>)"
  using simultaneous_starts_one_client_n_logins [of "''stu1''" "''pw1''" empty_server "[0, 5, 20]"]
  by (simp add: empty_server_def SESSION_TIMEOUT_def numeral_3_eq_3)

section \<open>Properties of the saturation grid\<close>

lemma channel_in: "i < length d \<Longrightarrow> channel d i = Fin (of_nat (d ! i))"
  by (simp add: channel_def nth_opt_def to_num_def)

lemma math_min3_Fin:
  "math_min [Fin a, Fin b, Fin c] = Fin (min a (min b c))"
  by (auto simp: math_min_def min_def)

lemma math_max3_Fin:
  "math_max [Fin a, Fin b, Fin c] = Fin (max a (max b c))"
  by (auto simp: math_max_def max_def)

lemma saturate_at_rgb:
  assumes "i + 2 < length d"
  shows "saturate_at d i =
           (let r = d ! i; g = d ! (i + 1); b = d ! (i + 2);
                mx = max r (max g b); mn = min r (min g b)
            in if mx = 0 then NaN
               else Fin (of_int \<lfloor>of_nat ((mx - mn) * 255) / of_nat mx + 1 / 2 :: rat\<rfloor>))"
proof -
  let ?r = "d ! i" and ?g = "d ! (i + 1)" and ?b = "d ! (i + 2)"
  have c: "channel d i = Fin (of_nat ?r)" "channel d (i + 1) = Fin (of_nat ?g)"
    "channel d (i + 2) = Fin (of_nat ?b)"
    using assms by (simp_all add: channel_in)
  have mx: "max (of_nat ?r) (max (of_nat ?g) (of_nat ?b)) = (of_nat (max ?r (max ?g ?b)) :: rat)"
    by (simp add: of_nat_max)
  have mn: "min (of_nat ?r) (min (of_nat ?g) (of_nat ?b)) = (of_nat (min ?r (min ?g ?b)) :: rat)"
    by (simp add: of_nat_min)
  have le: "min ?r (min ?g ?b) \<le> max ?r (max ?g ?b)" by simp
  show ?thesis
    unfolding saturate_at_def c math_min3_Fin math_max3_Fin mx mn Let_def
    using le by (simp add: js_sub_def signed_inf_def of_nat_diff left_diff_distrib)
qed

lemma round_bounds:
  fixes mx mn :: nat
  assumes "0 < mx" "mn \<le> mx"
  shows "0 \<le> \<lfloor>of_nat ((mx - mn) * 255) / of_nat mx + 1 / 2 :: rat\<rfloor>"
    and "\<lfloor>of_nat ((mx - mn) * 255) / of_nat mx + 1 / 2 :: rat\<rfloor> \<le> 255"
proof -
  let ?q = "of_nat ((mx - mn) * 255) / of_nat mx :: rat"
  have "0 \<le> ?q" by simp
  then show "0 \<le> \<lfloor>?q + 1 / 2\<rfloor>" by simp
  have "(mx - mn) * 255 \<le> mx * 255" by simp
  then have "(of_nat ((mx - mn) * 255) :: rat) \<le> of_nat (mx * 255)" by (simp only: of_nat_le_iff)
  then have "?q \<le> 255" using assms(1) by (simp add: divide_le_eq)
  then have "?q + 1 / 2 < 256" by simp
  then have "\<lfloor>?q + 1 / 2\<rfloor> < 256" by (simp add: floor_less_iff)
  then show "\<lfloor>?q + 1 / 2\<rfloor> \<le> 255" by simp
qed

lemma saturation_img_entry:
  assumes "i < 40" "j < 200" "4 * (i * 200 + j) + 3 < length d"
  shows "saturation_img d ! i ! j = Some (saturate_at d (4 * (i * 200 + j)))"
proof -
  have "i * 200 + j < length d div 4" using assms(3) by simp
  then show ?thesis
    using assms(1,2) by (simp add: saturation_img_def saturate_def nth_opt_def)
qed

lemma max3_zero: "max (a::nat) (max b c) = 0 \<longleftrightarrow> a = 0 \<and> b = 0 \<and> c = 0"
  by (auto simp: max_def)

text \<open>
  C10. The grid entry of a pixel whose red, green and blue bytes are all 0 is \<^verbatim>\<open>NaN\<close>: the
  saturation divides 0 by the maximum 0. For every other pixel the entry is an integer
  from 0 to 255. The per-pixel saturation has no guard for a maximum of 0.
\<close>

theorem black_pixel_saturation_is_NaN:
  assumes "i < 40" and "j < 200" and "4 * (i * 200 + j) + 3 < length d"
  shows "(d ! (4 * (i * 200 + j)) = 0 \<and> d ! (4 * (i * 200 + j) + 1) = 0
            \<and> d ! (4 * (i * 200 + j) + 2) = 0
          \<longrightarrow> saturation_img d ! i ! j = Some NaN)
       \<and> (\<not> (d ! (4 * (i * 200 + j)) = 0 \<and> d ! (4 * (i * 200 + j) + 1) = 0
            \<and> d ! (4 * (i * 200 + j) + 2) = 0)
          \<longrightarrow> (\<exists>n. 0 \<le> n \<and> n \<le> 255 \<and> saturation_img d ! i ! j = Some (Fin (of_int n))))"
proof -
  define k where "k = 4 * (i * 200 + j)"
  define mx where "mx = max (d ! k) (max (d ! (k + 1)) (d ! (k + 2)))"
  define mn where "mn = min (d ! k) (min (d ! (k + 1)) (d ! (k + 2)))"
  have e: "saturation_img d ! i ! j = Some (saturate_at d k)"
    unfolding k_def using assms by (rule saturation_img_entry)
  have s: "k + 2 < length d" using assms(3) by (simp add: k_def)
  have v: "saturate_at d k =
             (if mx = 0 then NaN
              else Fin (of_int \<lfloor>of_nat ((mx - mn) * 255) / of_nat mx + 1 / 2 :: rat\<rfloor>))"
    using saturate_at_rgb [OF s] by (simp only: Let_def mx_def mn_def)
  have z: "mx = 0 \<longleftrightarrow> d ! k = 0 \<and> d ! (k + 1) = 0 \<and> d ! (k + 2) = 0"
    unfolding mx_def by (rule max3_zero)
  have le: "mn \<le> mx" unfolding mn_def mx_def by simp
  have "(mx = 0 \<longrightarrow> saturation_img d ! i ! j = Some NaN)
      \<and> (mx \<noteq> 0 \<longrightarrow> (\<exists>n. 0 \<le> n \<and> n \<le> 255 \<and> saturation_img d ! i ! j = Some (Fin (of_int n))))"
  proof (cases "mx = 0")
    case True
    then show ?thesis by (simp add: e v)
  next
    case False
    then have "0 < mx" by simp
    from round_bounds [OF this le] False show ?thesis
      by (simp add: e v del: of_nat_mult)
  qed
  then show ?thesis unfolding z k_def .
qed

theorem black_pixel_saturation_is_NaN_witness:
  "(0::nat) < 40 \<and> (0::nat) < 200 \<and> 4 * (0 * 200 + 0) + 3 < length [0, 0, 0, 255::nat]
   \<and> [0, 0, 0, 255::nat] ! (4 * (0 * 200 + 0)) = 0
   \<and> [0, 0, 0, 255::nat] ! (4 * (0 * 200 + 0) + 1) = 0
   \<and> [0, 0, 0, 255::nat] ! (4 * (0 * 200 + 0) + 2) = 0
   \<and> saturation_img [0, 0, 0, 255] ! 0 ! 0 = Some NaN
   \<and> 4 * (0 * 200 + 0) + 3 < length [200, 100, 50, 255::nat]
   \<and> [200, 100, 50, 255::nat] ! (4 * (0 * 200 + 0)) \<noteq> 0
   \<and> (\<exists>n. 0 \<le> n \<and> n \<le> 255
          \<and> saturation_img [200, 100, 50, 255] ! 0 ! 0 = Some (Fin (of_int n)))"
  using black_pixel_saturation_is_NaN [of 0 0 "[0, 0, 0, 255]"]
        black_pixel_saturation_is_NaN [of 0 0 "[200, 100, 50, 255]"]
  by simp

section \<open>Properties of pipeline B\<close>

lemma length_concat_const:
  assumes "\<forall>xs\<in>set xss. length xs = n"
  shows "length (concat xss) = length xss * n"
  using assms by (induction xss) simp_all

lemma length_getImageData: "length (getImageData env img) = WIDTH * HEIGHT * 4"
proof -
  have row: "length (concat (map (\<lambda>x. rgba_bytes (sample env img WIDTH HEIGHT x y)) [0..<WIDTH]))
               = WIDTH * 4" for y
    by (subst length_concat_const [where n = 4]) (auto simp: rgba_bytes_def split: prod.splits)
  have "length (getImageData env img) = HEIGHT * (WIDTH * 4)"
    unfolding getImageData_def
    by (subst length_concat_const [where n = "WIDTH * 4"]) (auto simp: row)
  then show ?thesis by simp
qed

lemma saturation_img_shape:
  "length (saturation_img d) = 40 \<and> (\<forall>row\<in>set (saturation_img d). length row = 200)"
  by (auto simp: saturation_img_def)

lemma block_shape:
  assumes "length img = 40" and "\<forall>row\<in>set img. length row = 200" and "i < 6"
  shows "length (block img i) = 22 \<and> (\<forall>row\<in>set (block img i). length row = 24)"
proof -
  from assms(3) consider "i = 0" | "i = 1" | "i = 2" | "i = 3" | "i = 4" | "i = 5" by linarith
  then show ?thesis
  proof cases
    case 1 with assms(1,2) show ?thesis
      by (auto simp: block_def slice_def Let_def dest!: in_set_takeD in_set_dropD)
  next
    case 2 with assms(1,2) show ?thesis
      by (auto simp: block_def slice_def Let_def dest!: in_set_takeD in_set_dropD)
  next
    case 3 with assms(1,2) show ?thesis
      by (auto simp: block_def slice_def Let_def dest!: in_set_takeD in_set_dropD)
  next
    case 4 with assms(1,2) show ?thesis
      by (auto simp: block_def slice_def Let_def dest!: in_set_takeD in_set_dropD)
  next
    case 5 with assms(1,2) show ?thesis
      by (auto simp: block_def slice_def Let_def dest!: in_set_takeD in_set_dropD)
  next
    case 6 with assms(1,2) show ?thesis
      by (auto simp: block_def slice_def Let_def dest!: in_set_takeD in_set_dropD)
  qed
qed

lemma saturation_shape:
  assumes "saturation d = Inr bls"
  shows "length bls = 6
       \<and> (\<forall>cell\<in>set bls. length cell = 22 \<and> (\<forall>row\<in>set cell. length row = 24))"
proof -
  from assms have bls: "bls = map (block (saturation_img d)) [0..<6]"
    by (simp add: saturation_def split: if_splits)
  have "length (block (saturation_img d) i) = 22
        \<and> (\<forall>row\<in>set (block (saturation_img d) i). length row = 24)" if "i < 6" for i
    using saturation_img_shape [of d] that by (intro block_shape) simp_all
  then show ?thesis unfolding bls by auto
qed

lemma decode_cells_loaded:
  assumes "image_payload b64 = Inr p" and "writeFileSync p (files env) = Inr written"
    and "temp_captcha (others_before_load env written) = Some bytes"
    and "loadImage env bytes = Some img"
  shows "decode_cells env b64
           = Inr (map (block (saturation_img (getImageData env img))) [0..<6],
                  others_before_resume env (others_before_load env written))"
  using assms
  by (simp add: decode_cells_def saturation_def length_getImageData WIDTH_def HEIGHT_def)

lemma pre_img_shape:
  assumes "length cell = 22" and "\<forall>row\<in>set cell. length row = 24"
  shows "length (pre_img cell) = 22
       \<and> (\<forall>row\<in>set (pre_img cell). length row = 24 \<and> set row \<subseteq> {Fin 0, Fin 1})"
proof -
  from assms(1) obtain r0 rest where c: "cell = r0 # rest" by (cases cell) auto
  with assms(2) have "length r0 = 24" by simp
  then show ?thesis
    using assms(1) unfolding c by (auto simp: pre_img_def Let_def)
qed

lemma flatten_shape:
  assumes "length arr = 22" and "\<forall>row\<in>set arr. length row = 24 \<and> set row \<subseteq> {Fin 0, Fin 1}"
  shows "\<exists>v. flatten arr = Inr v \<and> length v = 528 \<and> set v \<subseteq> {Some (Fin 0), Some (Fin 1)}"
proof -
  from assms(1) obtain r0 rest where c: "arr = r0 # rest" by (cases arr) auto
  with assms(2) have r0: "length r0 = 24" by simp
  let ?v = "concat (map (\<lambda>row. map (nth_opt row) [0..<24]) arr)"
  have f: "flatten arr = Inr ?v" by (simp add: flatten_def c r0)
  have "length ?v = length (map (\<lambda>row. map (nth_opt row) [0..<24]) arr) * 24"
    by (rule length_concat_const) auto
  then have l: "length ?v = 528" using assms(1) by simp
  have "set ?v \<subseteq> {Some (Fin 0), Some (Fin 1)}"
    using assms(2) by (auto simp: nth_opt_def) (metis insertE nth_mem singletonD subsetD)+
  with f l show ?thesis by blast
qed

lemma fold_unchanged:
  assumes "\<And>k. k \<in> set ks \<Longrightarrow> F k a = a"
  shows "fold F ks a = a"
  using assms by (induction ks) simp_all

lemma math_max_member:
  assumes "xs \<noteq> []" and "NaN \<notin> set xs"
  shows "math_max xs \<in> set xs"
proof -
  have "fold (\<lambda>x m. if js_gt x m then x else m) xs NInf \<in> set xs"
    using assms
  proof (induction xs rule: rev_induct)
    case Nil
    then show ?case by simp
  next
    case (snoc x xs)
    show ?case
    proof (cases "xs = []")
      case True
      with snoc.prems(2) show ?thesis by (cases x) simp_all
    next
      case False
      with snoc show ?thesis by simp
    qed
  qed
  then show ?thesis using assms(2) by (simp add: math_max_def)
qed

lemma indexOf_from_member:
  assumes "v \<in> set xs" and "v \<noteq> NaN"
  shows "int k \<le> indexOf_from k xs v \<and> indexOf_from k xs v < int (k + length xs)"
  using assms(1)
proof (induction xs arbitrary: k)
  case Nil
  then show ?case by simp
next
  case (Cons x xs)
  show ?case
  proof (cases "strict_eq x v")
    case True
    then show ?thesis by simp
  next
    case False
    with Cons.prems assms(2) have "v \<in> set xs" by (auto simp: strict_eq_def)
    from Cons.IH [OF this, of "Suc k"] False show ?thesis by simp
  qed
qed

lemma pick_label_ok:
  assumes "probs \<noteq> []" and "length probs \<le> 32" and "NaN \<notin> set probs"
  shows "\<exists>c\<in>set label_txt. pick_label probs = [c]"
proof -
  have m: "math_max probs \<in> set probs" using assms(1,3) by (rule math_max_member)
  with assms(3) have "math_max probs \<noteq> NaN" by metis
  from indexOf_from_member [OF m this, of 0]
  have "0 \<le> indexOf probs (math_max probs)"
    and "indexOf probs (math_max probs) < int (length probs)"
    by (simp_all add: indexOf_def)
  moreover have "length label_txt = 32" by (simp add: label_txt_def)
  ultimately show ?thesis
    using assms(2) by (auto simp: pick_label_def label_at_def)
qed

lemma classify_cells_ok:
  assumes "\<forall>cell\<in>set bls. \<exists>probs. cell_probs env cell = Inr probs \<and> probs \<noteq> []
                                  \<and> length probs \<le> 32 \<and> NaN \<notin> set probs"
  shows "\<exists>out. classify_cells env bls = Inr out \<and> length out = length bls
              \<and> set out \<subseteq> set label_txt"
  using assms
proof (induction bls)
  case Nil
  show ?case by simp
next
  case (Cons cell bls)
  from Cons.prems obtain probs where p: "cell_probs env cell = Inr probs" "probs \<noteq> []"
    "length probs \<le> 32" "NaN \<notin> set probs" by auto
  from pick_label_ok [OF p(2,3,4)] obtain c where c: "c \<in> set label_txt" "pick_label probs = [c]"
    by blast
  from Cons.prems have "\<forall>cell\<in>set bls. \<exists>probs. cell_probs env cell = Inr probs \<and> probs \<noteq> []
                                  \<and> length probs \<le> 32 \<and> NaN \<notin> set probs" by simp
  from Cons.IH [OF this] obtain out where "classify_cells env bls = Inr out"
    "length out = length bls" "set out \<subseteq> set label_txt" by blast
  with p(1) c show ?case by simp
qed

lemma label_at_chars: "set (label_at k) \<subseteq> set label_txt \<union> set ''undefined''"
  by (auto simp: label_at_def)

lemma classify_cells_drawn:
  "classify_cells env bls = Inr out \<Longrightarrow> set out \<subseteq> set label_txt \<union> set ''undefined''"
proof (induction bls arbitrary: out)
  case Nil
  then show ?case by simp
next
  case (Cons cell bls)
  from Cons.prems obtain probs out' where "classify_cells env bls = Inr out'"
    and out: "out = pick_label probs @ out'"
    by (auto split: sum.splits)
  from Cons.IH [OF this(1)] label_at_chars [of "indexOf probs (math_max probs)"]
  show ?case unfolding out pick_label_def by (simp only: set_append) blast
qed

lemma sample_logit:
  assumes "length v = 528" and "set v \<subseteq> {Some (Fin 0), Some (Fin 1)}" and "j < 2"
  shows "fold (\<lambda>k acc. js_add acc (js_mul (to_num (elem v k))
                                          (to_num (nth_opt (replicate 528 [Fin 0, Fin 0] ! k) j))))
              [0..<528] (Fin 0) = Fin 0"
proof (rule fold_unchanged)
  fix k assume "k \<in> set [0..<528]"
  then have k: "k < 528" by simp
  with assms(1,2) have "v ! k \<in> {Some (Fin 0), Some (Fin 1)}"
    by (metis nth_mem subsetD)
  then have "to_num (elem v k) = Fin 0 \<or> to_num (elem v k) = Fin 1"
    using k assms(1) by (auto simp: elem_def to_num_def)
  moreover have "to_num (nth_opt (replicate 528 [Fin 0, Fin 0] ! k) j) = Fin 0"
    using k assms(3) by (auto simp: nth_opt_def to_num_def less_2_cases_iff)
  ultimately show "js_add (Fin 0) (js_mul (to_num (elem v k))
                     (to_num (nth_opt (replicate 528 [Fin 0, Fin 0] ! k) j))) = Fin 0"
    by auto
qed

lemma sample_mat_mul:
  assumes "length v = 528" and "set v \<subseteq> {Some (Fin 0), Some (Fin 1)}"
  shows "mat_mul sample_env [v] (weights sample_env) = Inr [[Fin 0, Fin 0]]"
proof -
  have "(528::nat) = Suc 527" by simp
  then have r: "replicate 528 [Fin 0, Fin 0 :: jsnum] = [Fin 0, Fin 0] # replicate 527 [Fin 0, Fin 0]"
    by (simp only: replicate_Suc)
  have u: "[0..<2] = [0, Suc 0]" by (simp add: upt_rec)
  have w: "weights sample_env = replicate 528 [Fin 0, Fin 0]"
    and ops: "fadd sample_env = js_add" "fmul sample_env = js_mul"
    by (simp_all add: sample_env_def)
  have c: "(case weights sample_env of [] \<Rightarrow> A | b0 # x \<Rightarrow> B b0) = B [Fin 0, Fin 0]" for A B
    unfolding w by (subst r) simp
  show ?thesis
    unfolding mat_mul_def c
    by (simp add: assms(1) u ops w sample_logit [OF assms])
qed

lemma sample_cell_probs:
  assumes "length cell = 22" and "\<forall>row\<in>set cell. length row = 24"
  shows "cell_probs sample_env cell = Inr [Fin (1 / 2), Fin (1 / 2)]"
proof -
  from pre_img_shape [OF assms] flatten_shape [of "pre_img cell"]
  obtain v where v: "flatten (pre_img cell) = Inr v" "length v = 528"
    "set v \<subseteq> {Some (Fin 0), Some (Fin 1)}" by blast
  have "max_soft sample_env (mat_add sample_env [Fin 0, Fin 0] (biases sample_env))
          = [Fin (1 / 2), Fin (1 / 2)]"
    by (simp add: max_soft_def mat_add_def sample_env_def nth_opt_def to_num_def upt_rec)
  then show ?thesis
    by (simp add: cell_probs_def v(1) sample_mat_mul [OF v(2,3)])
qed

lemma sample_pick: "pick_label [Fin (1 / 2), Fin (1 / 2)] = ''A''"
  by (simp add: pick_label_def math_max_def indexOf_def strict_eq_def label_at_def label_txt_def)

lemma sample_payload: "image_payload ''data:image/jpeg;base64,AAAA'' = Inr ''AAAA''"
  by (simp add: image_payload_def nth_opt_def)

lemma sample_decode:
  "decode_cells sample_env ''data:image/jpeg;base64,AAAA''
     = Inr (map (block (saturation_img (getImageData sample_env small_image))) [0..<6],
            \<lparr>temp_captcha = Some ''AAAA'', unwritable = False\<rparr>)"
proof -
  have "decode_cells sample_env ''data:image/jpeg;base64,AAAA''
     = Inr (map (block (saturation_img (getImageData sample_env small_image))) [0..<6],
            others_before_resume sample_env (others_before_load sample_env
              \<lparr>temp_captcha = Some ''AAAA'', unwritable = False\<rparr>))"
    using sample_payload
    by (rule decode_cells_loaded) (simp_all add: sample_env_def writeFileSync_def)
  then show ?thesis by (simp add: sample_env_def)
qed

lemma sample_classify:
  "classify_cells sample_env
     (map (block (saturation_img (getImageData sample_env small_image))) [0..<6]) = Inr ''AAAAAA''"
proof -
  let ?bls = "map (block (saturation_img (getImageData sample_env small_image))) [0..<6]"
  have s: "saturation (getImageData sample_env small_image) = Inr ?bls"
    by (simp add: saturation_def length_getImageData WIDTH_def HEIGHT_def)
  have c: "cell_probs sample_env cell = Inr [Fin (1 / 2), Fin (1 / 2)]" if "cell \<in> set ?bls" for cell
    using saturation_shape [OF s] that by (intro sample_cell_probs) blast+
  have "classify_cells sample_env bls = Inr (concat (replicate (length bls) ''A''))"
    if "set bls \<subseteq> set ?bls" for bls
    using that by (induction bls) (simp_all add: c sample_pick)
  from this [of ?bls] show ?thesis
    by (simp add: numeral_eq_Suc)
qed

lemma sample_solve:
  "solveCaptchaFromBase64 sample_env ''data:image/jpeg;base64,AAAA'' = Some ''AAAAAA''"
  by (simp add: solveCaptchaFromBase64_def solve_body_def sample_decode sample_classify
      unlinkSync_def)

lemma classify_cells_arith:
  assumes "fadd env' = fadd env" "fmul env' = fmul env" "fdiv env' = fdiv env"
    "fexp env' = fexp env" "weights env' = weights env" "biases env' = biases env"
  shows "classify_cells env' = classify_cells env"
proof -
  from assms have "cell_probs env' = cell_probs env"
    by (intro ext) (simp only: cell_probs_def mat_mul_def mat_add_def max_soft_def)
  then have "classify_cells env' bls = classify_cells env bls" for bls
    by (induction bls) (simp_all only: classify_cells.simps)
  then show ?thesis by (rule ext)
qed

text \<open>
  A call overwrites what an earlier call left in the temporary file: the result does not
  depend on the contents of the file when the call starts.
\<close>

lemma solve_overwrites:
  "solveCaptchaFromBase64 (env\<lparr>files := (files env)\<lparr>temp_captcha := old\<rparr>\<rparr>) b64
     = solveCaptchaFromBase64 env b64"
proof -
  let ?env = "env\<lparr>files := (files env)\<lparr>temp_captcha := old\<rparr>\<rparr>"
  have g: "getImageData ?env = getImageData env"
    by (intro ext) (simp add: getImageData_def)
  have w: "writeFileSync p (files ?env) = writeFileSync p (files env)" for p
    by (simp add: writeFileSync_def)
  have o: "others_before_load ?env = others_before_load env"
    "others_before_resume ?env = others_before_resume env" "loadImage ?env = loadImage env"
    by simp_all
  have "decode_cells ?env b64 = decode_cells env b64"
    unfolding decode_cells_def g w o by (rule refl)
  moreover have "classify_cells ?env = classify_cells env"
    by (rule classify_cells_arith) simp_all
  ultimately show ?thesis by (simp only: solveCaptchaFromBase64_def solve_body_def)
qed

lemma overlapped_cells:
  "classify_cells overlapped_env = classify_cells sample_env"
  by (rule classify_cells_arith) (simp_all add: overlapped_env_def)

lemma overlapped_decode:
  "decode_cells overlapped_env ''data:image/jpeg;base64,AAAA''
     = Inr (map (block (saturation_img (getImageData sample_env small_image))) [0..<6],
            \<lparr>temp_captcha = None, unwritable = False\<rparr>)"
proof -
  have g: "getImageData overlapped_env small_image = getImageData sample_env small_image"
    by (simp add: getImageData_def overlapped_env_def)
  have "decode_cells overlapped_env ''data:image/jpeg;base64,AAAA''
     = Inr (map (block (saturation_img (getImageData overlapped_env small_image))) [0..<6],
            others_before_resume overlapped_env (others_before_load overlapped_env
              \<lparr>temp_captcha = Some ''AAAA'', unwritable = False\<rparr>))"
    using sample_payload
    by (rule decode_cells_loaded)
       (simp_all add: overlapped_env_def sample_env_def writeFileSync_def)
  then show ?thesis unfolding g by (simp add: overlapped_env_def sample_env_def)
qed

lemma overlapped_solve:
  "solveCaptchaFromBase64 overlapped_env ''data:image/jpeg;base64,AAAA'' = None"
  by (simp add: solveCaptchaFromBase64_def solve_body_def overlapped_decode overlapped_cells
      sample_classify unlinkSync_def)

section \<open>Properties of the template matcher\<close>

lemma for_each_inv:
  assumes "P s" and "\<And>s i. P s \<Longrightarrow> i \<in> set js \<Longrightarrow> \<exists>s'. f s i = Inr s' \<and> P s'"
  shows "\<exists>s'. for_each f js s = Inr s' \<and> P s'"
  using assms
proof (induction js arbitrary: s)
  case Nil
  then show ?case by simp
next
  case (Cons i js)
  from Cons.prems(2) [OF Cons.prems(1), of i] obtain s1 where s1: "f s i = Inr s1" "P s1"
    by auto
  have "\<exists>s'. for_each f js s1 = Inr s' \<and> P s'"
    by (rule Cons.IH [OF s1(2)]) (simp add: Cons.prems(2))
  then show ?case by (simp add: s1(1))
qed

lemma for_each_fold:
  assumes "\<And>s i. i \<in> set js \<Longrightarrow> f s i = Inr (g i s)"
  shows "for_each f js s = Inr (fold g js s)"
  using assms by (induction js arbitrary: s) simp_all

lemma for_each_append:
  "for_each f (is1 @ is2) s =
     (case for_each f is1 s of Inl e \<Rightarrow> Inl e | Inr s' \<Rightarrow> for_each f is2 s')"
  by (induction is1 arbitrary: s) (simp_all split: sum.splits)

lemma clean_px_ok:
  assumes "x + 1 < length g"
  shows "\<exists>g'. clean_px g x y = Inr g' \<and> length g' = length g"
  using assms by (simp add: clean_px_def Let_def)

lemma clean_ok:
  assumes "45 \<le> length g"
  shows "\<exists>g'. clean g = Inr g' \<and> length g' = length g"
proof -
  have row: "\<exists>s'. for_each (\<lambda>g y. clean_px g x y) [1..<179] s = Inr s' \<and> length s' = length g"
    if "length s = length g" "x \<in> set [1..<44]" for s x
  proof (rule for_each_inv [where P = "\<lambda>s. length s = length g"])
    show "length s = length g" by (rule that)
  next
    fix s' :: grid and i
    assume "length s' = length g"
    moreover from that(2) assms have "x + 1 < length g" by simp
    ultimately show "\<exists>s''. clean_px s' x i = Inr s'' \<and> length s'' = length g"
      using clean_px_ok [of x s' i] by simp
  qed
  show ?thesis
    unfolding clean_def
  proof (rule for_each_inv [where P = "\<lambda>s. length s = length g"])
    show "length g = length g" by simp
  next
    fix s :: grid and i
    assume "length s = length g" and "i \<in> set [1..<44]"
    then show "\<exists>s'. for_each (\<lambda>g y. clean_px g i y) [1..<179] s = Inr s' \<and> length s' = length g"
      by (rule row)
  qed
qed

lemma fold_product:
  "fold (\<lambda>x s. fold (\<lambda>y. h (x, y)) ys s) xs s = fold h (List.product xs ys) s"
  by (induction xs arbitrary: s) (simp_all add: fold_map comp_def)

lemma fold_count:
  "fold (\<lambda>p (m, b). (if Q p \<and> H p then m + 1 else m, if Q p then b + 1 else b)) ps (m0, b0)
     = (m0 + length (filter H (filter Q ps)), b0 + length (filter Q ps))"
  by (induction ps arbitrary: m0 b0) auto

lemma compare_px_in:
  assumes "x + 12 < length g" and "x < length tmpl" and "30 \<le> j"
  shows "compare_px g tmpl j x y mb =
           Inr ((\<lambda>p (m, b). (if (case p of (x, y) \<Rightarrow> nth_opt (tmpl ! x) y = Some 0)
                                  \<and> (case p of (x, y) \<Rightarrow> elem (g ! (x + 12)) (y + (j - 30)) = Some 0)
                               then m + 1 else m,
                               if (case p of (x, y) \<Rightarrow> nth_opt (tmpl ! x) y = Some 0)
                               then b + 1 else b)) (x, y) mb)"
proof -
  have "y + j - 30 = y + (j - 30)" using assms(3) by simp
  then show ?thesis
    using assms(1,2) by (cases mb) (simp add: compare_px_def Let_def)
qed

lemma symbol_score_spec:
  assumes "44 \<le> length g" and "32 \<le> length tmpl" and "1 \<le> n"
  shows "symbol_score g (Some tmpl) (30 * n) =
           Inr (js_div (Fin (of_nat (length (band_overlap g tmpl n))))
                       (Fin (of_nat (length (template_foreground tmpl)))))"
proof -
  let ?Q = "\<lambda>p. case p of (x, y) \<Rightarrow> nth_opt (tmpl ! x) y = Some (0::int)"
  let ?H = "\<lambda>p. case p of (x, y) \<Rightarrow> elem (g ! (x + 12)) (y + (30 * n - 30)) = Some (0::int)"
  let ?h = "\<lambda>p (m, b). (if ?Q p \<and> ?H p then m + 1 else m, if ?Q p then b + (1::nat) else b)"
  have inner: "for_each (\<lambda>mb y. compare_px g tmpl (30 * n) x y mb) [0..<30] mb
                 = Inr (fold (\<lambda>y. ?h (x, y)) [0..<30] mb)" if "x \<in> set [0..<32]" for x mb
  proof (rule for_each_fold)
    fix s :: "nat \<times> nat" and i
    from that assms have "x + 12 < length g" "x < length tmpl" "30 \<le> 30 * n" by simp_all
    then show "compare_px g tmpl (30 * n) x i s = Inr (?h (x, i) s)"
      by (rule compare_px_in)
  qed
  have "for_each (\<lambda>mb x. for_each (\<lambda>mb y. compare_px g tmpl (30 * n) x y mb) [0..<30] mb)
          [0..<32] (0, 0)
        = Inr (fold (\<lambda>x mb. fold (\<lambda>y. ?h (x, y)) [0..<30] mb) [0..<32] (0, 0))"
    by (rule for_each_fold) (rule inner)
  also have "fold (\<lambda>x mb. fold (\<lambda>y. ?h (x, y)) [0..<30] mb) [0..<32] (0, 0)
               = fold ?h (List.product [0..<32] [0..<30]) (0, 0)"
    by (rule fold_product)
  also have "\<dots> = (0 + length (filter ?H (filter ?Q (List.product [0..<32] [0..<30]))),
                    0 + length (filter ?Q (List.product [0..<32] [0..<30])))"
    by (rule fold_count)
  finally show ?thesis
    by (simp add: symbol_score_def band_overlap_def template_foreground_def)
qed

lemma band_matches_spec:
  assumes "44 \<le> length g" and "1 \<le> n"
    and "\<forall>c\<in>set cs. \<exists>t. bitmaps c = Some t \<and> 32 \<le> length t"
  shows "band_matches bitmaps g (30 * n) cs =
           Inr (map (\<lambda>c. (js_div (Fin (of_nat (length (band_overlap g (the (bitmaps c)) n))))
                                   (Fin (of_nat (length (template_foreground (the (bitmaps c)))))),
                            [c])) cs)"
  using assms(3)
proof (induction cs)
  case Nil
  show ?case by simp
next
  case (Cons c cs)
  from Cons.prems obtain t where t: "bitmaps c = Some t" "32 \<le> length t" by auto
  from Cons.prems have "\<forall>c\<in>set cs. \<exists>t. bitmaps c = Some t \<and> 32 \<le> length t" by simp
  from Cons.IH [OF this] symbol_score_spec [OF assms(1) t(2) assms(2)]
  show ?case by (simp add: t(1))
qed

lemma ratio_not_below_zero:
  "\<not> js_gt (Fin 0) (js_div (Fin (of_nat a)) (Fin (of_nat b)))"
proof -
  have "\<not> (rat_of_nat a / rat_of_nat b < 0)" by (simp add: not_less)
  then show ?thesis by (simp add: signed_inf_def)
qed

lemma best_fold_member:
  assumes "\<forall>m\<in>set ms. \<not> js_gt (Fin 0) (fst m)"
  shows "fold (\<lambda>b a. if js_gt (fst a) (fst b) then a else b) ms (Fin 0, ''0'')
           \<in> (if ms = [] then {(Fin 0, ''0'')} else set ms)"
  using assms
proof (induction ms rule: rev_induct)
  case Nil
  show ?case by simp
next
  case (snoc x xs)
  then show ?case by (cases "xs = []") auto
qed

lemma best_match_member:
  assumes "ms \<noteq> []" and "\<forall>m\<in>set ms. \<not> js_gt (Fin 0) (fst m)"
  shows "best_match ms \<in> snd ` set ms"
  using best_fold_member [OF assms(2)] assms(1) by (auto simp: best_match_def)

lemma best_fold_last_highest:
  assumes "qs \<noteq> []" and "\<forall>p\<in>set qs. 0 \<le> fst p"
  shows "\<exists>i. last_highest (\<lambda>k. fst (qs ! k)) (length qs) i
            \<and> fold (\<lambda>b a. if js_gt (fst a) (fst b) then a else b)
                  (map (\<lambda>p. (Fin (fst p), snd p)) qs) (Fin 0, ''0'')
                = (Fin (fst (qs ! i)), snd (qs ! i))"
  using assms
proof (induction qs rule: rev_induct)
  case Nil
  then show ?case by simp
next
  case (snoc x xs)
  show ?case
  proof (cases "xs = []")
    case True
    have "last_highest (\<lambda>k. fst ([x] ! k)) 1 0" by (simp add: last_highest_def)
    moreover have "0 \<le> fst x" using snoc.prems(2) by simp
    ultimately show ?thesis using True by (intro exI [of _ 0]) simp
  next
    case False
    from snoc.prems(2) have "\<forall>p\<in>set xs. 0 \<le> fst p" by simp
    from snoc.IH [OF False this] obtain i where
      i: "last_highest (\<lambda>k. fst (xs ! k)) (length xs) i"
      and f: "fold (\<lambda>b a. if js_gt (fst a) (fst b) then a else b)
                (map (\<lambda>p. (Fin (fst p), snd p)) xs) (Fin 0, ''0'')
              = (Fin (fst (xs ! i)), snd (xs ! i))" by blast
    from i have il: "i < length xs" by (simp add: last_highest_def)
    show ?thesis
    proof (cases "fst x < fst (xs ! i)")
      case True
      have "last_highest (\<lambda>k. fst ((xs @ [x]) ! k)) (length (xs @ [x])) i"
        using i True by (auto simp: last_highest_def nth_append less_Suc_eq)
      moreover have "fold (\<lambda>b a. if js_gt (fst a) (fst b) then a else b)
                (map (\<lambda>p. (Fin (fst p), snd p)) (xs @ [x])) (Fin 0, ''0'')
              = (Fin (fst ((xs @ [x]) ! i)), snd ((xs @ [x]) ! i))"
        using True il by (simp add: f nth_append)
      ultimately show ?thesis by blast
    next
      case False
      have "last_highest (\<lambda>k. fst ((xs @ [x]) ! k)) (length (xs @ [x])) (length xs)"
        using i False by (fastforce simp: last_highest_def nth_append less_Suc_eq)
      moreover have "fold (\<lambda>b a. if js_gt (fst a) (fst b) then a else b)
                (map (\<lambda>p. (Fin (fst p), snd p)) (xs @ [x])) (Fin 0, ''0'')
              = (Fin (fst ((xs @ [x]) ! length xs)), snd ((xs @ [x]) ! length xs))"
        using False by (simp add: f)
      ultimately show ?thesis by blast
    qed
  qed
qed

lemma for_each_preserves:
  assumes "for_each f js s = Inr s'" and "P s"
    and "\<And>s i s'. P s \<Longrightarrow> i \<in> set js \<Longrightarrow> f s i = Inr s' \<Longrightarrow> P s'"
  shows "P s'"
  using assms
proof (induction js arbitrary: s)
  case Nil
  then show ?case by simp
next
  case (Cons i js)
  from Cons.prems(1) obtain s1 where s1: "f s i = Inr s1" "for_each f js s1 = Inr s'"
    by (auto split: sum.splits)
  have "P s1" using Cons.prems(2) _ s1(1) by (rule Cons.prems(3)) simp
  with s1(2) show ?case
  proof (rule Cons.IH)
    fix t j t'
    assume "P t" and "j \<in> set js" and "f t j = Inr t'"
    then show "P t'" using Cons.prems(3) [of t j t'] by simp
  qed
qed

lemma guarded_result:
  "(if a then Inl e else if b then Inl e' else if c then Inr u else Inr v) = Inr r
     \<Longrightarrow> r = u \<or> r = v"
  by (cases a; cases b; cases c) simp_all

lemma clean_px_length:
  assumes "clean_px g x y = Inr g'"
  shows "length g' = length g"
proof -
  from assms [unfolded clean_px_def Let_def]
  have "g' = g[x := row_set (g ! x) y 255] \<or> g' = g" by (rule guarded_result)
  then show ?thesis by auto
qed

lemma clean_length:
  assumes "clean imgarr = Inr g"
  shows "length g = length imgarr"
  using assms [unfolded clean_def]
proof (rule for_each_preserves [where P = "\<lambda>s. length s = length imgarr"])
  show "length imgarr = length imgarr" by (rule refl)
next
  fix s :: grid and x s'
  assume s: "length s = length imgarr"
    and r: "for_each (\<lambda>g y. clean_px g x y) [1..<179] s = Inr s'"
  from r s show "length s' = length imgarr"
  proof (rule for_each_preserves [where P = "\<lambda>s. length s = length imgarr"])
    fix t :: grid and y t'
    assume "length t = length imgarr" and "clean_px t x y = Inr t'"
    then show "length t' = length imgarr" using clean_px_length [of t x y t'] by simp
  qed
qed

lemma last_highest_cong:
  assumes "last_highest f n i" and "\<forall>k<n. f k = f' k"
  shows "last_highest f' n i"
  using assms by (auto simp: last_highest_def)

lemma band_winner:
  assumes g: "44 \<le> length g" and n: "1 \<le> n"
    and t: "\<forall>c\<in>set chars. \<exists>t. bitmaps c = Some t \<and> 32 \<le> length t \<and> template_foreground t \<noteq> []"
  shows "\<exists>ms i. band_matches bitmaps g (30 * n) chars = Inr ms
              \<and> last_highest (\<lambda>k. score_spec g (the (bitmaps (chars ! k))) n) (length chars) i
              \<and> best_match ms = [chars ! i]"
proof -
  let ?qs = "map (\<lambda>c. (score_spec g (the (bitmaps c)) n, [c])) chars"
  let ?ms = "map (\<lambda>c. (Fin (score_spec g (the (bitmaps c)) n), [c])) chars"
  have ms_qs: "?ms = map (\<lambda>p. (Fin (fst p), snd p)) ?qs" by (simp add: comp_def)
  from t have t': "\<forall>c\<in>set chars. \<exists>t. bitmaps c = Some t \<and> 32 \<le> length t" by blast
  have "band_matches bitmaps g (30 * n) chars =
          Inr (map (\<lambda>c. (js_div (Fin (of_nat (length (band_overlap g (the (bitmaps c)) n))))
                                  (Fin (of_nat (length (template_foreground (the (bitmaps c)))))),
                           [c])) chars)"
    using g n t' by (rule band_matches_spec)
  also have "map (\<lambda>c. (js_div (Fin (of_nat (length (band_overlap g (the (bitmaps c)) n))))
                                  (Fin (of_nat (length (template_foreground (the (bitmaps c)))))),
                           [c])) chars = ?ms"
  proof (rule map_cong [OF refl])
    fix c assume "c \<in> set chars"
    with t obtain tm where "bitmaps c = Some tm" "template_foreground tm \<noteq> []" by blast
    then show "(js_div (Fin (of_nat (length (band_overlap g (the (bitmaps c)) n))))
                       (Fin (of_nat (length (template_foreground (the (bitmaps c)))))), [c])
               = (Fin (score_spec g (the (bitmaps c)) n), [c])"
      by (simp add: score_spec_def)
  qed
  finally have bm: "band_matches bitmaps g (30 * n) chars = Inr ?ms" .
  have ne: "?qs \<noteq> []" by (simp add: chars_def)
  have nn: "\<forall>p\<in>set ?qs. 0 \<le> fst p" by (auto simp: score_spec_def)
  from best_fold_last_highest [OF ne nn] obtain i where
    i: "last_highest (\<lambda>k. fst (?qs ! k)) (length ?qs) i"
    and f: "fold (\<lambda>b a. if js_gt (fst a) (fst b) then a else b)
              (map (\<lambda>p. (Fin (fst p), snd p)) ?qs) (Fin 0, ''0'')
              = (Fin (fst (?qs ! i)), snd (?qs ! i))" by blast
  have len: "length ?qs = length chars" by simp
  from i have il: "i < length chars" by (simp add: last_highest_def)
  have "\<forall>k<length chars. fst (?qs ! k) = score_spec g (the (bitmaps (chars ! k))) n" by simp
  with i [unfolded len]
  have "last_highest (\<lambda>k. score_spec g (the (bitmaps (chars ! k))) n) (length chars) i"
    by (rule last_highest_cong)
  moreover have "best_match ?ms = [chars ! i]"
    unfolding best_match_def ms_qs f using il by simp
  ultimately show ?thesis using bm by blast
qed

lemma symbol_score_not_below_zero:
  assumes "symbol_score g tm j = Inr p"
  shows "\<not> js_gt (Fin 0) p"
proof -
  from assms obtain a b where "p = js_div (Fin (of_nat a)) (Fin (of_nat b))"
    by (auto simp: symbol_score_def split: option.splits sum.splits)
  then show ?thesis by (simp only: ratio_not_below_zero not_False_eq_True)
qed

lemma band_matches_shape:
  assumes "band_matches bitmaps g j cs = Inr ms"
  shows "map snd ms = map (\<lambda>c. [c]) cs \<and> (\<forall>m\<in>set ms. \<not> js_gt (Fin 0) (fst m))"
  using assms
proof (induction cs arbitrary: ms)
  case Nil
  then show ?case by simp
next
  case (Cons c cs)
  from Cons.prems obtain p ms' where p: "symbol_score g (bitmaps c) j = Inr p"
    and ms': "band_matches bitmaps g j cs = Inr ms'" and ms: "ms = (p, [c]) # ms'"
    by (auto split: sum.splits)
  from Cons.IH [OF ms'] symbol_score_not_below_zero [OF p] show ?case
    unfolding ms by simp
qed

lemma match_bands_drawn:
  assumes "match_bands bitmaps g js = Inr s"
  shows "length s = length js \<and> set s \<subseteq> set chars"
  using assms
proof (induction js arbitrary: s)
  case Nil
  then show ?case by simp
next
  case (Cons j js)
  from Cons.prems obtain ms s' where ms: "band_matches bitmaps g j chars = Inr ms"
    and s': "match_bands bitmaps g js = Inr s'" and s: "s = best_match ms @ s'"
    by (auto split: sum.splits)
  from band_matches_shape [OF ms]
  have sh: "map snd ms = map (\<lambda>c. [c]) chars" and nn: "\<forall>m\<in>set ms. \<not> js_gt (Fin 0) (fst m)"
    by simp_all
  from sh have "ms \<noteq> []" by (auto simp: chars_def)
  from best_match_member [OF this nn] have "best_match ms \<in> set (map snd ms)" by simp
  then obtain c where "c \<in> set chars" "best_match ms = [c]" unfolding sh by auto
  with Cons.IH [OF s'] show ?case unfolding s by simp
qed

lemma match_bands_succeeds:
  assumes "44 \<le> length g" and "\<forall>c\<in>set chars. \<exists>t. bitmaps c = Some t \<and> 32 \<le> length t"
    and "\<forall>n\<in>set ns. 1 \<le> n"
  shows "\<exists>s. match_bands bitmaps g (map (\<lambda>n. 30 * n) ns) = Inr s"
  using assms(3)
proof (induction ns)
  case Nil
  show ?case by simp
next
  case (Cons n ns)
  then have "1 \<le> n" and "\<forall>n\<in>set ns. 1 \<le> n" by simp_all
  from Cons.IH [OF this(2)] band_matches_spec [OF assms(1) this(1) assms(2)]
  show ?case by auto
qed

lemma band_list: "[30, 60, 90, 120, 150, 180] = map (\<lambda>n. 30 * n) [1..<7::nat]"
  by (simp add: upt_rec)

lemma captcha_parse_six:
  assumes "45 \<le> length imgarr"
    and "\<forall>c\<in>set chars. \<exists>t. bitmaps c = Some t \<and> 32 \<le> length t"
  shows "\<exists>s. captcha_parse bitmaps imgarr = Inr s \<and> length s = 6 \<and> set s \<subseteq> set chars"
proof -
  from clean_ok [OF assms(1)] obtain g where g: "clean imgarr = Inr g" "length g = length imgarr"
    by blast
  with assms(1) have "44 \<le> length g" by simp
  from match_bands_succeeds [OF this assms(2), of "[1..<7]"]
  obtain s where s: "match_bands bitmaps g [30, 60, 90, 120, 150, 180] = Inr s"
    unfolding band_list by auto
  from match_bands_drawn [OF s] s g(1) show ?thesis
    by (simp add: captcha_parse_def)
qed

lemma match_bands_winners:
  assumes "44 \<le> length g"
    and "\<forall>c\<in>set chars. \<exists>t. bitmaps c = Some t \<and> 32 \<le> length t \<and> template_foreground t \<noteq> []"
    and "\<forall>n\<in>set ns. 1 \<le> n"
  shows "\<exists>s. match_bands bitmaps g (map (\<lambda>n. 30 * n) ns) = Inr s
           \<and> list_all2 (\<lambda>n c. \<exists>i. last_highest (\<lambda>k. score_spec g (the (bitmaps (chars ! k))) n)
                                      (length chars) i \<and> c = chars ! i) ns s"
  using assms(3)
proof (induction ns)
  case Nil
  show ?case by simp
next
  case (Cons n ns)
  then have n: "1 \<le> n" and "\<forall>n\<in>set ns. 1 \<le> n" by simp_all
  from Cons.IH [OF this(2)] obtain s where
    s: "match_bands bitmaps g (map (\<lambda>n. 30 * n) ns) = Inr s"
       "list_all2 (\<lambda>n c. \<exists>i. last_highest (\<lambda>k. score_spec g (the (bitmaps (chars ! k))) n)
                                      (length chars) i \<and> c = chars ! i) ns s" by blast
  from band_winner [OF assms(1) n assms(2)] obtain ms i where
    w: "band_matches bitmaps g (30 * n) chars = Inr ms"
       "last_highest (\<lambda>k. score_spec g (the (bitmaps (chars ! k))) n) (length chars) i"
       "best_match ms = [chars ! i]" by blast
  have "match_bands bitmaps g (map (\<lambda>n. 30 * n) (n # ns)) = Inr (chars ! i # s)"
    by (simp add: w(1,3) s(1))
  moreover have "list_all2 (\<lambda>n c. \<exists>i. last_highest (\<lambda>k. score_spec g (the (bitmaps (chars ! k))) n)
                                      (length chars) i \<and> c = chars ! i) (n # ns) (chars ! i # s)"
    using w(2) s(2) by auto
  ultimately show ?case by blast
qed

lemma for_each_fixed:
  assumes "\<And>i. i \<in> set js \<Longrightarrow> f s i = Inr s"
  shows "for_each f js s = Inr s"
  using assms by (induction js) simp_all

lemma zero_grid_elem: "x < 45 \<Longrightarrow> y < 180 \<Longrightarrow> elem (zero_grid ! x) y = Some 0"
  by (simp add: zero_grid_def elem_def)

lemma clean_px_zero_grid:
  assumes "1 \<le> x" "x < 44" "1 \<le> y" "y < 179"
  shows "clean_px zero_grid x y = Inr zero_grid"
proof -
  have "elem (zero_grid ! x) y = Some 0" "elem (zero_grid ! (x - 1)) y = Some 0"
    "elem (zero_grid ! x) (y - 1) = Some 0"
    using assms by (simp_all add: zero_grid_elem)
  moreover have "length zero_grid = 45" by (simp add: zero_grid_def)
  ultimately show ?thesis using assms by (simp add: clean_px_def Let_def)
qed

lemma clean_zero_grid: "clean zero_grid = Inr zero_grid"
  unfolding clean_def
  by (rule for_each_fixed, rule for_each_fixed) (simp add: clean_px_zero_grid)

lemma dark_rows:
  "x < 43 \<Longrightarrow> y < 179 \<Longrightarrow> elem (dark_last_row ! x) y = Some 255"
  "y < 179 \<Longrightarrow> elem (dark_last_row ! 43) y = Some 0"
  "length dark_last_row = 44"
  by (simp_all add: dark_last_row_def elem_def nth_append)

lemma clean_px_dark_upper:
  assumes "1 \<le> x" "x < 43" "1 \<le> y" "y < 179"
  shows "clean_px dark_last_row x y = Inr dark_last_row"
proof -
  have "elem (dark_last_row ! x) y = Some 255" using assms by (simp add: dark_rows)
  then show ?thesis using assms by (simp add: clean_px_def Let_def dark_rows(3))
qed

lemma clean_px_dark_last: "clean_px dark_last_row 43 (Suc 0) = Inl TypeError"
proof -
  have "elem (dark_last_row ! 42) (Suc 0) = Some 255" "elem (dark_last_row ! 43) (Suc 0) = Some 0"
    by (simp_all add: dark_rows)
  then show ?thesis by (simp add: clean_px_def Let_def dark_rows(3))
qed

lemma clean_dark_last_row: "clean dark_last_row = Inl TypeError"
proof -
  have rows: "[1..<44] = [1..<43] @ [43::nat]" by (simp add: upt_rec)
  have cols: "[1..<179] = Suc 0 # [2..<179::nat]" by (simp add: upt_rec)
  have upper: "for_each (\<lambda>g x. for_each (\<lambda>g y. clean_px g x y) [1..<179] g) [1..<43] dark_last_row
                 = Inr dark_last_row"
    by (rule for_each_fixed, rule for_each_fixed) (simp add: clean_px_dark_upper)
  have last: "for_each (\<lambda>g y. clean_px g 43 y) [1..<179] dark_last_row = Inl TypeError"
    by (subst cols) (simp only: for_each.simps clean_px_dark_last sum.case)
  show ?thesis
    unfolding clean_def rows for_each_append upper
    by (simp only: sum.case for_each.simps last)
qed

lemma js_gt_irrefl: "\<not> js_gt v v"
  by (cases v) simp_all

lemma best_match_tie_last:
  assumes "\<not> js_gt (Fin 0) v"
  shows "best_match (map (\<lambda>c. (v, [c])) (cs @ [z])) = [z]"
proof -
  let ?acc = "fold (\<lambda>b a. if js_gt (fst a) (fst b) then a else b) (map (\<lambda>c. (v, [c])) cs)
                (Fin 0, ''0'')"
  have "\<forall>m\<in>set (map (\<lambda>c. (v, [c])) cs). \<not> js_gt (Fin 0) (fst m)" using assms by simp
  from best_fold_member [OF this] have "fst ?acc = Fin 0 \<or> fst ?acc = v"
    by (auto split: if_splits)
  then have "\<not> js_gt (fst ?acc) v" using assms js_gt_irrefl by auto
  then show ?thesis by (simp add: best_match_def)
qed

lemma same_bitmaps_band:
  assumes "1 \<le> n"
  shows "\<exists>ms. band_matches same_bitmaps zero_grid (30 * n) chars = Inr ms \<and> best_match ms = ''Z''"
proof -
  define v where "v = js_div (Fin (of_nat (length (band_overlap zero_grid full_template n))))
                             (Fin (of_nat (length (template_foreground full_template))))"
  have "44 \<le> length zero_grid" by (simp add: zero_grid_def)
  moreover have "\<forall>c\<in>set chars. \<exists>t. same_bitmaps c = Some t \<and> 32 \<le> length t"
    by (simp add: same_bitmaps_def full_template_def)
  ultimately have "band_matches same_bitmaps zero_grid (30 * n) chars
                     = Inr (map (\<lambda>c. (v, [c])) chars)"
    using band_matches_spec [of zero_grid n chars same_bitmaps] assms
    by (simp add: same_bitmaps_def v_def)
  moreover have "chars = ''123456789ABCDEFGHIJKLMNPQRSTUVWXY'' @ ''Z''" by (simp add: chars_def)
  moreover have "\<not> js_gt (Fin 0) v" unfolding v_def by (rule ratio_not_below_zero)
  ultimately show ?thesis using best_match_tie_last [of v] by metis
qed

lemma same_bitmaps_bands:
  assumes "\<forall>n\<in>set ns. 1 \<le> n"
  shows "match_bands same_bitmaps zero_grid (map (\<lambda>n. 30 * n) ns)
           = Inr (replicate (length ns) CHR ''Z'')"
  using assms
proof (induction ns)
  case Nil
  show ?case by simp
next
  case (Cons n ns)
  then have "1 \<le> n" and "\<forall>n\<in>set ns. 1 \<le> n" by simp_all
  from same_bitmaps_band [OF this(1)] Cons.IH [OF this(2)] show ?case by auto
qed

lemma same_bitmaps_parse: "captcha_parse same_bitmaps zero_grid = Inr ''ZZZZZZ''"
  using same_bitmaps_bands [of "[1..<7]"]
  by (simp add: captcha_parse_def clean_zero_grid band_list numeral_eq_Suc)

lemma full_template_foreground: "template_foreground full_template \<noteq> []"
proof -
  have "(0, 0) \<in> set (template_foreground full_template)"
    by (simp add: template_foreground_def full_template_def nth_opt_def)
  then show ?thesis by auto
qed

lemma same_bitmaps_ok:
  "\<forall>c\<in>set chars. \<exists>t. same_bitmaps c = Some t \<and> 32 \<le> length t \<and> template_foreground t \<noteq> []"
  using full_template_foreground by (simp add: same_bitmaps_def full_template_def)

lemma mat_mul_one_row:
  assumes "b = b0 # bs" and "length v \<le> length b"
  shows "\<exists>row. mat_mul env [v] b = Inr [row] \<and> length row = length b0"
  using assms(2) unfolding assms(1) by (simp add: mat_mul_def)

lemma cell_probs_length:
  assumes "length cell = 22" and "\<forall>row\<in>set cell. length row = 24"
    and "528 \<le> length (weights env)"
  shows "\<exists>probs. cell_probs env cell = Inr probs \<and> length probs = length (hd (weights env))"
proof -
  from pre_img_shape [OF assms(1,2)] flatten_shape [of "pre_img cell"]
  obtain v where v: "flatten (pre_img cell) = Inr v" "length v = 528" by blast
  from assms(3) obtain b0 bs where b: "weights env = b0 # bs" by (cases "weights env") auto
  have "length v \<le> length (weights env)" using assms(3) v(2) by simp
  from mat_mul_one_row [OF b this]
  obtain row where "mat_mul env [v] (weights env) = Inr [row]" "length row = length b0"
    by blast
  then show ?thesis
    by (simp add: cell_probs_def v(1) b max_soft_def mat_add_def)
qed

lemma decode_cells_shape:
  assumes "decode_cells env b64 = Inr (bls, fs)"
  shows "length bls = 6
       \<and> (\<forall>cell\<in>set bls. length cell = 22 \<and> (\<forall>row\<in>set cell. length row = 24))"
  using assms saturation_shape [of _ bls]
  by (auto simp: decode_cells_def Let_def split: sum.splits option.splits)

lemma nth_concat_fixed:
  assumes "\<forall>xs\<in>set xss. length xs = k" and "i < length xss" and "c < k"
  shows "concat xss ! (i * k + c) = xss ! i ! c"
  using assms
proof (induction xss arbitrary: i)
  case Nil
  then show ?case by simp
next
  case (Cons xs xss)
  show ?case
  proof (cases i)
    case 0
    then show ?thesis using Cons.prems by (simp add: nth_append)
  next
    case (Suc j)
    with Cons.prems have "concat xss ! (j * k + c) = xss ! j ! c"
      by (intro Cons.IH) simp_all
    then show ?thesis using Cons.prems Suc by (simp add: nth_append)
  qed
qed

lemma getImageData_pixel:
  assumes "x < WIDTH" and "y < HEIGHT" and "c < 4"
  shows "getImageData env img ! (4 * (y * WIDTH + x) + c)
           = rgba_bytes (sample env img WIDTH HEIGHT x y) ! c"
proof -
  define line where
    "line = (\<lambda>y. concat (map (\<lambda>x. rgba_bytes (sample env img WIDTH HEIGHT x y)) [0..<WIDTH]))"
  have px: "length (rgba_bytes v) = 4" for v
    by (cases v) (simp add: rgba_bytes_def)
  have a: "line y' ! (x * 4 + c) = rgba_bytes (sample env img WIDTH HEIGHT x y') ! c" for y'
    unfolding line_def
    using nth_concat_fixed
            [of "map (\<lambda>x. rgba_bytes (sample env img WIDTH HEIGHT x y')) [0..<WIDTH]" 4 x c]
          assms(1,3)
    by (simp add: px)
  have l: "length (line y') = WIDTH * 4" for y'
    unfolding line_def by (subst length_concat_const [where n = 4]) (simp_all add: px)
  have "x * 4 + c < WIDTH * 4" using assms(1,3) by simp
  then have "concat (map line [0..<HEIGHT]) ! (y * (WIDTH * 4) + (x * 4 + c))
               = line y ! (x * 4 + c)"
    using nth_concat_fixed [of "map line [0..<HEIGHT]" "WIDTH * 4" y "x * 4 + c"] assms(2)
    by (simp add: l)
  moreover have "y * (WIDTH * 4) + (x * 4 + c) = 4 * (y * WIDTH + x) + c" by simp
  moreover have "getImageData env img = concat (map line [0..<HEIGHT])"
    by (simp add: getImageData_def line_def)
  ultimately show ?thesis using a by simp
qed

lemma sample_pixel:
  "getImageData sample_env small_image ! 31996 = img_data small_image ! 7996"
proof -
  have "199 < WIDTH" "39 < HEIGHT" "(0::nat) < 4" by (simp_all add: WIDTH_def HEIGHT_def)
  from getImageData_pixel [OF this, of sample_env small_image]
  show ?thesis
    by (simp add: WIDTH_def HEIGHT_def sample_env_def nearest_sample_def small_image_def
        nth_opt_def rgba_bytes_def)
qed

lemma elem_row_set:
  "elem (row_set row y v) y' = (if y' = y then Some v else elem row y')"
  by (auto simp: row_set_def elem_def nth_append nth_list_update)

lemma clean_px_last_row_clear:
  assumes l: "44 \<le> length s" and x: "1 \<le> x" "x < 44"
    and z: "\<forall>y. 1 \<le> y \<and> y < 179 \<longrightarrow> elem (s ! 43) y \<noteq> Some 0"
    and y: "1 \<le> y" "y < 179"
  shows "\<exists>s'. clean_px s x y = Inr s' \<and> length s' = length s
              \<and> (\<forall>y. 1 \<le> y \<and> y < 179 \<longrightarrow> elem (s' ! 43) y \<noteq> Some 0)"
proof -
  have n: "\<not> (elem (s ! (x - 1)) y = Some 255 \<and> elem (s ! x) y = Some 0 \<and> length s \<le> x + 1)"
  proof
    assume a: "elem (s ! (x - 1)) y = Some 255 \<and> elem (s ! x) y = Some 0 \<and> length s \<le> x + 1"
    with l x have "x = 43" by simp
    with a z y show False by simp
  qed
  have b: "\<not> length s \<le> x" using l x by simp
  define u where "u = s[x := row_set (s ! x) y 255]"
  have "clean_px s x y = Inr u \<or> clean_px s x y = Inr s"
    unfolding clean_px_def Let_def u_def using n b
    by (simp only: if_False) (metis (full_types))
  moreover have "length u = length s" by (simp add: u_def)
  moreover have "\<forall>y. 1 \<le> y \<and> y < 179 \<longrightarrow> elem (u ! 43) y \<noteq> Some 0"
  proof (cases "x = 43")
    case True
    then have "u ! 43 = row_set (s ! 43) y 255" using l by (simp add: u_def)
    then show ?thesis using z by (simp add: elem_row_set)
  next
    case False
    then have "u ! 43 = s ! 43" by (simp add: u_def)
    then show ?thesis using z by simp
  qed
  ultimately show ?thesis using z by blast
qed

lemma clean_last_row_clear:
  assumes "44 \<le> length g"
    and "\<forall>y. 1 \<le> y \<and> y < 179 \<longrightarrow> elem (g ! 43) y \<noteq> Some 0"
  shows "\<exists>g'. clean g = Inr g'"
proof -
  let ?P = "\<lambda>s. 44 \<le> length s \<and> (\<forall>y. 1 \<le> y \<and> y < 179 \<longrightarrow> elem (s ! 43) y \<noteq> Some 0)"
  have row: "\<exists>s'. for_each (\<lambda>g y. clean_px g x y) [1..<179] s = Inr s' \<and> ?P s'"
    if "?P s" "x \<in> set [1..<44]" for s x
  proof (rule for_each_inv [where P = ?P])
    show "?P s" by (rule that)
  next
    fix t :: grid and y
    assume t: "?P t" and "y \<in> set [1..<179]"
    then have "1 \<le> y" "y < 179" by simp_all
    moreover from that(2) have "1 \<le> x" "x < 44" by simp_all
    ultimately obtain t' where "clean_px t x y = Inr t'" "length t' = length t"
      "\<forall>y. 1 \<le> y \<and> y < 179 \<longrightarrow> elem (t' ! 43) y \<noteq> Some 0"
      using clean_px_last_row_clear [of t x y] t by blast
    with t show "\<exists>t'. clean_px t x y = Inr t' \<and> ?P t'" by simp
  qed
  have "\<exists>s'. for_each (\<lambda>g x. for_each (\<lambda>g y. clean_px g x y) [1..<179] g) [1..<44] g = Inr s'
             \<and> ?P s'"
  proof (rule for_each_inv [where P = ?P])
    show "?P g" using assms by simp
  next
    fix s :: grid and i
    assume "?P s" and "i \<in> set [1..<44]"
    then show "\<exists>s'. for_each (\<lambda>g y. clean_px g i y) [1..<179] s = Inr s' \<and> ?P s'"
      by (rule row)
  qed
  then show ?thesis unfolding clean_def by blast
qed

lemma cleaned_parse_six:
  assumes "44 \<le> length imgarr" and "clean imgarr = Inr g"
    and "\<forall>c\<in>set chars. \<exists>t. bitmaps c = Some t \<and> 32 \<le> length t"
  shows "\<exists>s. captcha_parse bitmaps imgarr = Inr s \<and> length s = 6 \<and> set s \<subseteq> set chars"
proof -
  have "44 \<le> length g" using clean_length [OF assms(2)] assms(1) by simp
  from match_bands_succeeds [OF this assms(3), of "[1..<7]"]
  obtain s where s: "match_bands bitmaps g [30, 60, 90, 120, 150, 180] = Inr s"
    unfolding band_list by auto
  from match_bands_drawn [OF s] s assms(2) show ?thesis
    by (simp add: captcha_parse_def)
qed

lemma white_grid_elem: "x < 44 \<Longrightarrow> y < 179 \<Longrightarrow> elem (white_grid ! x) y = Some 255"
  by (simp add: white_grid_def elem_def)

lemma clean_px_white_grid:
  assumes "1 \<le> x" "x < 44" "1 \<le> y" "y < 179"
  shows "clean_px white_grid x y = Inr white_grid"
proof -
  have "elem (white_grid ! x) y = Some 255" using assms by (simp add: white_grid_elem)
  moreover have "length white_grid = 44" by (simp add: white_grid_def)
  ultimately show ?thesis using assms by (simp add: clean_px_def Let_def)
qed

lemma clean_white_grid: "clean white_grid = Inr white_grid"
  unfolding clean_def
  by (rule for_each_fixed, rule for_each_fixed) (simp add: clean_px_white_grid)

lemma classified_six:
  assumes d: "decode_cells env b64 = Inr (bls, fs)"
    and w: "528 \<le> length (weights env)"
    and n: "1 \<le> length (hd (weights env))" "length (hd (weights env)) \<le> 32"
    and ok: "\<forall>cell\<in>set bls. \<forall>probs. cell_probs env cell = Inr probs \<longrightarrow> NaN \<notin> set probs"
  shows "\<exists>out. classify_cells env bls = Inr out \<and> length out = 6 \<and> set out \<subseteq> set label_txt"
proof -
  from decode_cells_shape [OF d]
  have l: "length bls = 6"
    and sh: "\<forall>cell\<in>set bls. length cell = 22 \<and> (\<forall>row\<in>set cell. length row = 24)"
    by simp_all
  have "\<forall>cell\<in>set bls. \<exists>probs. cell_probs env cell = Inr probs \<and> probs \<noteq> []
                               \<and> length probs \<le> 32 \<and> NaN \<notin> set probs"
  proof
    fix cell assume c: "cell \<in> set bls"
    with sh have "length cell = 22" "\<forall>row\<in>set cell. length row = 24" by simp_all
    from cell_probs_length [OF this w] obtain probs where
      p: "cell_probs env cell = Inr probs" "length probs = length (hd (weights env))" by blast
    with n have "probs \<noteq> []" "length probs \<le> 32" by auto
    with p(1) ok c show "\<exists>probs. cell_probs env cell = Inr probs \<and> probs \<noteq> []
                               \<and> length probs \<le> 32 \<and> NaN \<notin> set probs" by blast
  qed
  from classify_cells_ok [OF this] l show ?thesis by auto
qed

section \<open>The claims about the two recognition pipelines\<close>

text \<open>
  C1, as the claim states it, fails: an image of 100 by 20 pixels is not rejected. It is
  drawn stretched onto the 200 by 40 canvas (the last pixel of the canvas, at column 199
  of row 39, is the last pixel of the image, at column 99 of row 19), decoded into the six
  cells and classified.
\<close>

theorem small_image_is_scaled_not_rejected:
  "img_width small_image = 100 \<and> img_height small_image = 20
   \<and> loadImage sample_env ''AAAA'' = Some small_image
   \<and> getImageData sample_env small_image ! (4 * (39 * 200 + 199))
       = img_data small_image ! (4 * (19 * 100 + 99))
   \<and> decode_cells sample_env ''data:image/jpeg;base64,AAAA''
       = Inr (map (block (saturation_img (getImageData sample_env small_image))) [0..<6],
              \<lparr>temp_captcha = Some ''AAAA'', unwritable = False\<rparr>)
   \<and> solveCaptchaFromBase64 sample_env ''data:image/jpeg;base64,AAAA'' = Some ''AAAAAA''"
  using sample_decode sample_solve sample_pixel by (simp add: small_image_def sample_env_def)

text \<open>
  C1, amended. For every image that the loader decodes from the temporary file, whatever
  its width and height, the decoding raises no error and the image is resized: it is drawn
  with the destination size 200 by 40, so that byte \<open>c\<close> of the pixel \<open>(x, y)\<close> of the canvas
  is byte \<open>c\<close> of the colour that the canvas library gives to the pixel \<open>(x, y)\<close> of the
  image stretched to 200 by 40, and the \<open>200 * 40 * 4\<close> bytes of the canvas give the
  saturation grid of 40 rows by 200 columns and its six cells of 22 rows by 24 columns. No
  resolution is checked. (The image decoded is the one that the temporary file holds when
  the loader reads it, after the write of the payload has succeeded.)
\<close>

theorem decoding_scales_every_resolution:
  assumes "image_payload b64 = Inr p"
    and "writeFileSync p (files env) = Inr written"
    and "temp_captcha (others_before_load env written) = Some bytes"
    and "loadImage env bytes = Some img"
  shows "decode_cells env b64
           = Inr (map (block (saturation_img (getImageData env img))) [0..<6],
                  others_before_resume env (others_before_load env written))
       \<and> length (getImageData env img) = WIDTH * HEIGHT * 4
       \<and> (\<forall>x y c. x < WIDTH \<and> y < HEIGHT \<and> c < 4 \<longrightarrow>
             getImageData env img ! (4 * (y * WIDTH + x) + c)
               = rgba_bytes (sample env img WIDTH HEIGHT x y) ! c)
       \<and> length (saturation_img (getImageData env img)) = 40
       \<and> (\<forall>row\<in>set (saturation_img (getImageData env img)). length row = 200)
       \<and> (\<forall>cell\<in>set (map (block (saturation_img (getImageData env img))) [0..<6]).
             length cell = 22 \<and> (\<forall>row\<in>set cell. length row = 24))"
proof -
  let ?d = "getImageData env img"
  have a: "decode_cells env b64
             = Inr (map (block (saturation_img ?d)) [0..<6],
                    others_before_resume env (others_before_load env written))"
    using assms by (rule decode_cells_loaded)
  have c: "\<forall>cell\<in>set (map (block (saturation_img ?d)) [0..<6]).
             length cell = 22 \<and> (\<forall>row\<in>set cell. length row = 24)"
    using decode_cells_shape [OF a] by simp
  have p: "\<forall>x y c. x < WIDTH \<and> y < HEIGHT \<and> c < 4 \<longrightarrow>
             ?d ! (4 * (y * WIDTH + x) + c) = rgba_bytes (sample env img WIDTH HEIGHT x y) ! c"
    using getImageData_pixel [of _ _ _ env img] by blast
  show ?thesis
    using a c p saturation_img_shape [of ?d] by (simp only: length_getImageData) blast
qed

theorem decoding_scales_every_resolution_witness:
  "img_width small_image = 100 \<and> img_height small_image = 20
   \<and> image_payload ''data:image/jpeg;base64,AAAA'' = Inr ''AAAA''
   \<and> writeFileSync ''AAAA'' (files sample_env)
       = Inr \<lparr>temp_captcha = Some ''AAAA'', unwritable = False\<rparr>
   \<and> temp_captcha (others_before_load sample_env
        \<lparr>temp_captcha = Some ''AAAA'', unwritable = False\<rparr>) = Some ''AAAA''
   \<and> loadImage sample_env ''AAAA'' = Some small_image
   \<and> decode_cells sample_env ''data:image/jpeg;base64,AAAA''
       = Inr (map (block (saturation_img (getImageData sample_env small_image))) [0..<6],
              \<lparr>temp_captcha = Some ''AAAA'', unwritable = False\<rparr>)
   \<and> length (getImageData sample_env small_image) = 32000
   \<and> (199::nat) < WIDTH \<and> (39::nat) < HEIGHT \<and> (0::nat) < 4
   \<and> getImageData sample_env small_image ! (4 * (39 * WIDTH + 199) + 0)
       = rgba_bytes (sample sample_env small_image WIDTH HEIGHT 199 39) ! 0
   \<and> rgba_bytes (sample sample_env small_image WIDTH HEIGHT 199 39) ! 0
       = img_data small_image ! (4 * (19 * 100 + 99))
   \<and> length (saturation_img (getImageData sample_env small_image)) = 40
   \<and> list_all (\<lambda>row. length row = 200) (saturation_img (getImageData sample_env small_image))
   \<and> list_all (\<lambda>cell. length cell = 22 \<and> list_all (\<lambda>row. length row = 24) cell)
        (map (block (saturation_img (getImageData sample_env small_image))) [0..<6])"
proof -
  have h: "image_payload ''data:image/jpeg;base64,AAAA'' = Inr ''AAAA''"
    "writeFileSync ''AAAA'' (files sample_env)
       = Inr \<lparr>temp_captcha = Some ''AAAA'', unwritable = False\<rparr>"
    "temp_captcha (others_before_load sample_env
        \<lparr>temp_captcha = Some ''AAAA'', unwritable = False\<rparr>) = Some ''AAAA''"
    "loadImage sample_env ''AAAA'' = Some small_image"
    by (simp_all add: sample_payload sample_env_def writeFileSync_def)
  have s: "rgba_bytes (sample sample_env small_image WIDTH HEIGHT 199 39) ! 0
             = img_data small_image ! (4 * (19 * 100 + 99))"
    by (simp add: WIDTH_def HEIGHT_def sample_env_def nearest_sample_def small_image_def
        nth_opt_def rgba_bytes_def)
  have r: "others_before_resume sample_env (others_before_load sample_env
             \<lparr>temp_captcha = Some ''AAAA'', unwritable = False\<rparr>)
           = \<lparr>temp_captcha = Some ''AAAA'', unwritable = False\<rparr>"
    by (simp add: sample_env_def)
  have b: "(199::nat) < WIDTH \<and> (39::nat) < HEIGHT \<and> (0::nat) < 4"
    "WIDTH * HEIGHT * 4 = 32000" "img_width small_image = 100 \<and> img_height small_image = 20"
    by (simp_all add: WIDTH_def HEIGHT_def small_image_def)
  from decoding_scales_every_resolution [OF h] h s b
  show ?thesis unfolding list_all_iff r by (simp only:) blast
qed

text \<open>
  C2, as the claim states it, fails: on a grid of 44 rows of 179 entries the cleaning loop
  reads row 44 and the template matcher throws instead of returning a string.
\<close>

theorem parse_throws_on_44_rows:
  "length dark_last_row = 44 \<and> list_all (\<lambda>row. length row = 179) dark_last_row
   \<and> captcha_parse same_bitmaps dark_last_row = Inl TypeError"
  by (simp add: captcha_parse_def clean_dark_last_row)
     (auto simp: dark_last_row_def list_all_iff)

text \<open>
  C2, amended. On every grid of at least 44 rows on which the cleaning loop does not throw,
  with a template of at least 32 rows for each of its 34 symbols, the template matcher
  returns a string of exactly 6 characters, each a member of its alphabet. The cleaning
  loop does not throw on a grid of at least 45 rows, nor on a grid of at least 44 rows
  whose row 43 has no 0 in the columns 1 to 178. The linear classifier, with a weight
  table of at least 528 rows and of 1 to 32 columns, returns a string of exactly 6
  characters, each a member of its alphabet, for every decoded image on whose six cells
  the softmax vector holds no \<^verbatim>\<open>NaN\<close>, provided that the deletion of the temporary file,
  which follows the classification, does not throw; when the deletion throws, the result is
  \<^verbatim>\<open>null\<close>.
\<close>

theorem six_characters_from_own_alphabet:
  "(44 \<le> length imgarr \<longrightarrow> clean imgarr = Inr g \<longrightarrow>
      (\<forall>c\<in>set chars. \<exists>t. bitmaps c = Some t \<and> 32 \<le> length t) \<longrightarrow>
      (\<exists>s. captcha_parse bitmaps imgarr = Inr s \<and> length s = 6 \<and> set s \<subseteq> set chars))
   \<and> (45 \<le> length imgarr \<longrightarrow> (\<exists>g'. clean imgarr = Inr g'))
   \<and> (44 \<le> length imgarr \<longrightarrow>
      (\<forall>y. 1 \<le> y \<and> y < 179 \<longrightarrow> elem (imgarr ! 43) y \<noteq> Some 0) \<longrightarrow>
      (\<exists>g'. clean imgarr = Inr g'))
   \<and> (decode_cells env b64 = Inr (bls, fs) \<longrightarrow>
      528 \<le> length (weights env) \<longrightarrow>
      1 \<le> length (hd (weights env)) \<longrightarrow> length (hd (weights env)) \<le> 32 \<longrightarrow>
      (\<forall>cell\<in>set bls. \<forall>probs. cell_probs env cell = Inr probs \<longrightarrow> NaN \<notin> set probs) \<longrightarrow>
      unlinkSync fs = Inr fs' \<longrightarrow>
      (\<exists>out. solveCaptchaFromBase64 env b64 = Some out \<and> length out = 6
              \<and> set out \<subseteq> set label_txt))
   \<and> (decode_cells env b64 = Inr (bls, fs) \<longrightarrow> unlinkSync fs = Inl e \<longrightarrow>
      solveCaptchaFromBase64 env b64 = None)"
proof (intro conjI impI)
  assume "44 \<le> length imgarr" and "clean imgarr = Inr g"
    and "\<forall>c\<in>set chars. \<exists>t. bitmaps c = Some t \<and> 32 \<le> length t"
  then show "\<exists>s. captcha_parse bitmaps imgarr = Inr s \<and> length s = 6 \<and> set s \<subseteq> set chars"
    by (rule cleaned_parse_six)
next
  assume "45 \<le> length imgarr"
  from clean_ok [OF this] show "\<exists>g'. clean imgarr = Inr g'" by blast
next
  assume "44 \<le> length imgarr"
    and "\<forall>y. 1 \<le> y \<and> y < 179 \<longrightarrow> elem (imgarr ! 43) y \<noteq> Some 0"
  then show "\<exists>g'. clean imgarr = Inr g'" by (rule clean_last_row_clear)
next
  assume d: "decode_cells env b64 = Inr (bls, fs)"
    and w: "528 \<le> length (weights env)"
    and n: "1 \<le> length (hd (weights env))" "length (hd (weights env)) \<le> 32"
    and ok: "\<forall>cell\<in>set bls. \<forall>probs. cell_probs env cell = Inr probs \<longrightarrow> NaN \<notin> set probs"
    and u: "unlinkSync fs = Inr fs'"
  from classified_six [OF d w n ok] d u
  show "\<exists>out. solveCaptchaFromBase64 env b64 = Some out \<and> length out = 6
              \<and> set out \<subseteq> set label_txt"
    by (auto simp: solveCaptchaFromBase64_def solve_body_def)
next
  assume "decode_cells env b64 = Inr (bls, fs)" and "unlinkSync fs = Inl e"
  then show "solveCaptchaFromBase64 env b64 = None"
    by (simp add: solveCaptchaFromBase64_def solve_body_def split: sum.splits)
qed

theorem six_characters_from_own_alphabet_witness:
  "length white_grid = 44 \<and> 44 \<le> length white_grid \<and> clean white_grid = Inr white_grid
   \<and> list_all (\<lambda>c. \<exists>t. same_bitmaps c = Some t \<and> 32 \<le> length t) chars
   \<and> (\<exists>s. captcha_parse same_bitmaps white_grid = Inr s \<and> length s = 6 \<and> set s \<subseteq> set chars)
   \<and> 45 \<le> length zero_grid \<and> (\<exists>g'. clean zero_grid = Inr g')
   \<and> list_all (\<lambda>y. elem (white_grid ! 43) y \<noteq> Some 0) [1..<179]
   \<and> (\<exists>g'. clean white_grid = Inr g')
   \<and> decode_cells sample_env ''data:image/jpeg;base64,AAAA''
       = Inr (map (block (saturation_img (getImageData sample_env small_image))) [0..<6],
              \<lparr>temp_captcha = Some ''AAAA'', unwritable = False\<rparr>)
   \<and> 528 \<le> length (weights sample_env)
   \<and> 1 \<le> length (hd (weights sample_env)) \<and> length (hd (weights sample_env)) \<le> 32
   \<and> list_all (\<lambda>cell. cell_probs sample_env cell = Inr [Fin (1 / 2), Fin (1 / 2)])
        (map (block (saturation_img (getImageData sample_env small_image))) [0..<6])
   \<and> unlinkSync \<lparr>temp_captcha = Some ''AAAA'', unwritable = False\<rparr>
       = Inr \<lparr>temp_captcha = None, unwritable = False\<rparr>
   \<and> (\<exists>out. solveCaptchaFromBase64 sample_env ''data:image/jpeg;base64,AAAA'' = Some out
             \<and> length out = 6 \<and> set out \<subseteq> set label_txt)
   \<and> decode_cells overlapped_env ''data:image/jpeg;base64,AAAA''
       = Inr (map (block (saturation_img (getImageData sample_env small_image))) [0..<6],
              \<lparr>temp_captcha = None, unwritable = False\<rparr>)
   \<and> unlinkSync \<lparr>temp_captcha = None, unwritable = False\<rparr> = Inl IOError
   \<and> solveCaptchaFromBase64 overlapped_env ''data:image/jpeg;base64,AAAA'' = None"
proof -
  let ?bls = "map (block (saturation_img (getImageData sample_env small_image))) [0..<6]"
  let ?fs = "\<lparr>temp_captcha = Some ''AAAA'', unwritable = False\<rparr>"
  let ?gone = "\<lparr>temp_captcha = None, unwritable = False\<rparr>"
  have g: "length white_grid = 44" "44 \<le> length white_grid" "45 \<le> length zero_grid"
    by (simp_all add: white_grid_def zero_grid_def)
  have t: "\<forall>c\<in>set chars. \<exists>t. same_bitmaps c = Some t \<and> 32 \<le> length t"
    using same_bitmaps_ok by blast
  have z: "\<forall>y. 1 \<le> y \<and> y < 179 \<longrightarrow> elem (white_grid ! 43) y \<noteq> Some 0"
    by (simp add: white_grid_elem)
  then have z': "\<forall>y\<in>set [1..<179]. elem (white_grid ! 43) y \<noteq> Some 0" by simp
  have w: "528 \<le> length (weights sample_env)" "1 \<le> length (hd (weights sample_env))"
    "length (hd (weights sample_env)) \<le> 32"
    by (simp_all add: sample_env_def)
  have c: "\<forall>cell\<in>set ?bls. cell_probs sample_env cell = Inr [Fin (1 / 2), Fin (1 / 2)]"
    using decode_cells_shape [OF sample_decode] by (auto intro: sample_cell_probs)
  then have n: "\<forall>cell\<in>set ?bls. \<forall>probs. cell_probs sample_env cell = Inr probs
                  \<longrightarrow> NaN \<notin> set probs" by auto
  have u: "unlinkSync ?fs = Inr ?gone" "unlinkSync ?gone = Inl IOError"
    by (simp_all add: unlinkSync_def)
  from six_characters_from_own_alphabet
         [of white_grid white_grid same_bitmaps sample_env "''data:image/jpeg;base64,AAAA''"
             ?bls ?fs ?gone IOError]
       six_characters_from_own_alphabet
         [of zero_grid zero_grid same_bitmaps overlapped_env "''data:image/jpeg;base64,AAAA''"
             ?bls ?gone ?gone IOError]
       g t z z' clean_white_grid sample_decode overlapped_decode w c n u
  show ?thesis unfolding list_all_iff by blast
qed

text \<open>
  C6, as the claim states it, fails: when all the symbols have the same score, the symbol
  chosen is the last of the table, \<open>Z\<close>, not the first, \<open>1\<close>.
\<close>

theorem tie_goes_to_last_symbol:
  "score_spec zero_grid (the (same_bitmaps (chars ! 0))) 1
     = score_spec zero_grid (the (same_bitmaps (chars ! 33))) 1
   \<and> chars ! 0 = CHR ''1'' \<and> chars ! 33 = CHR ''Z''
   \<and> captcha_parse same_bitmaps zero_grid = Inr ''ZZZZZZ''"
  using same_bitmaps_parse by (simp add: same_bitmaps_def chars_def)

text \<open>
  C6, amended. For every band \<open>n\<close> from 1 to 6 of the cleaned grid, spanning the columns
  \<open>30 * n - 30\<close> to \<open>30 * n - 1\<close> of the rows 12 to 43, the template matcher computes for
  each of the 34 symbols the score (foreground pixels of the template that are foreground
  in the region) divided by (foreground pixels of the template), and selects the symbol
  with the highest score; among symbols of equal highest score the one that comes last in
  the symbol table wins. (Every template has 32 rows and at least one foreground pixel.)
\<close>

theorem template_matcher_picks_last_highest:
  assumes "clean imgarr = Inr g" and "44 \<le> length imgarr"
    and "\<forall>c\<in>set chars. \<exists>t. bitmaps c = Some t \<and> 32 \<le> length t \<and> template_foreground t \<noteq> []"
  shows "\<exists>s. captcha_parse bitmaps imgarr = Inr s \<and> length s = 6
           \<and> (\<forall>n. 1 \<le> n \<and> n \<le> 6 \<longrightarrow>
                 (\<exists>i. last_highest (\<lambda>k. score_spec g (the (bitmaps (chars ! k))) n) (length chars) i
                      \<and> s ! (n - 1) = chars ! i))"
proof -
  have "44 \<le> length g" using clean_length [OF assms(1)] assms(2) by simp
  from match_bands_winners [OF this assms(3), of "[1..<7]"] obtain s where
    s: "match_bands bitmaps g [30, 60, 90, 120, 150, 180] = Inr s"
    and a: "list_all2 (\<lambda>n c. \<exists>i. last_highest (\<lambda>k. score_spec g (the (bitmaps (chars ! k))) n)
                                      (length chars) i \<and> c = chars ! i) [1..<7] s"
    unfolding band_list by auto
  from a have l: "length s = 6" by (auto dest: list_all2_lengthD)
  have "\<exists>i. last_highest (\<lambda>k. score_spec g (the (bitmaps (chars ! k))) n) (length chars) i
             \<and> s ! (n - 1) = chars ! i" if "1 \<le> n \<and> n \<le> 6" for n
  proof -
    from that have "n - 1 < 6" by arith
    then have m: "n - 1 < length [1..<7::nat]" by simp
    from that have e: "[1..<7] ! (n - 1) = n" by (simp add: nth_upt)
    from list_all2_nthD [OF a m] show ?thesis unfolding e .
  qed
  with s l assms(1) show ?thesis by (simp add: captcha_parse_def)
qed

theorem template_matcher_picks_last_highest_witness:
  "clean zero_grid = Inr zero_grid \<and> 44 \<le> length zero_grid
   \<and> list_all (\<lambda>c. \<exists>t. same_bitmaps c = Some t \<and> 32 \<le> length t
                         \<and> template_foreground t \<noteq> []) chars
   \<and> (\<exists>s. captcha_parse same_bitmaps zero_grid = Inr s \<and> length s = 6
           \<and> (\<forall>n. 1 \<le> n \<and> n \<le> 6 \<longrightarrow>
                 (\<exists>i. last_highest (\<lambda>k. score_spec zero_grid (the (same_bitmaps (chars ! k))) n)
                         (length chars) i
                      \<and> s ! (n - 1) = chars ! i)))"
proof -
  have g: "44 \<le> length zero_grid" by (simp add: zero_grid_def)
  from template_matcher_picks_last_highest [OF clean_zero_grid g same_bitmaps_ok]
       clean_zero_grid g same_bitmaps_ok
  show ?thesis unfolding list_all_iff by blast
qed

text \<open>
  C7, as the claim states it, fails: the alphabet of the linear classifier has 32 symbols,
  not 33.
\<close>

theorem linear_alphabet_has_32_symbols:
  "label_txt = ''ABCDEFGHJKLMNPQRSTUVWXYZ23456789'' \<and> length label_txt = 32
   \<and> length label_txt \<noteq> 33"
  by (simp add: label_txt_def)

text \<open>
  C7, amended. The two pipelines use distinct fixed alphabets: every character the
  template matcher returns is drawn from the 34-symbol string
  \<^verbatim>\<open>123456789ABCDEFGHIJKLMNPQRSTUVWXYZ\<close> (no letter O), and the output of the linear
  classifier is drawn from the 32-symbol string \<^verbatim>\<open>ABCDEFGHJKLMNPQRSTUVWXYZ23456789\<close> (no I
  or O, digits last), one character for each cell whose arg-max index lies in the string;
  for an index outside it the text \<^verbatim>\<open>undefined\<close> is appended.
\<close>

theorem alphabets_fixed_and_distinct:
  "chars = ''123456789ABCDEFGHIJKLMNPQRSTUVWXYZ'' \<and> length chars = 34
   \<and> CHR ''O'' \<notin> set chars
   \<and> label_txt = ''ABCDEFGHJKLMNPQRSTUVWXYZ23456789'' \<and> length label_txt = 32
   \<and> CHR ''I'' \<notin> set label_txt \<and> CHR ''O'' \<notin> set label_txt
   \<and> drop 24 label_txt = ''23456789''
   \<and> set chars \<noteq> set label_txt
   \<and> (captcha_parse bitmaps imgarr = Inr s \<longrightarrow> set s \<subseteq> set chars)
   \<and> (solveCaptchaFromBase64 env b64 = Some out \<longrightarrow>
        set out \<subseteq> set label_txt \<union> set ''undefined'')
   \<and> (\<forall>k. 0 \<le> k \<and> k < 32 \<longrightarrow> label_at k = [label_txt ! nat k])"
proof -
  have a: "captcha_parse bitmaps imgarr = Inr s \<longrightarrow> set s \<subseteq> set chars"
    using match_bands_drawn [of bitmaps _ "[30, 60, 90, 120, 150, 180]" s]
    by (auto simp: captcha_parse_def split: sum.splits)
  have b: "solveCaptchaFromBase64 env b64 = Some out \<longrightarrow>
             set out \<subseteq> set label_txt \<union> set ''undefined''"
    using classify_cells_drawn [of env _ out]
    by (auto simp: solveCaptchaFromBase64_def solve_body_def split: sum.splits)
  have len: "length label_txt = 32" by (simp add: label_txt_def)
  have c: "\<forall>k. 0 \<le> k \<and> k < 32 \<longrightarrow> label_at k = [label_txt ! nat k]"
    unfolding label_at_def len by auto
  have d: "CHR ''1'' \<in> set chars" "CHR ''1'' \<notin> set label_txt"
    by (simp_all add: chars_def label_txt_def)
  then have e: "set chars \<noteq> set label_txt" by metis
  show ?thesis
    using a b c e by (simp add: chars_def label_txt_def)
qed

theorem alphabets_fixed_and_distinct_witness:
  "captcha_parse same_bitmaps zero_grid = Inr ''ZZZZZZ'' \<and> set ''ZZZZZZ'' \<subseteq> set chars
   \<and> solveCaptchaFromBase64 sample_env ''data:image/jpeg;base64,AAAA'' = Some ''AAAAAA''
   \<and> set ''AAAAAA'' \<subseteq> set label_txt \<union> set ''undefined''
   \<and> (0::int) \<le> 31 \<and> (31::int) < 32 \<and> label_at 31 = [label_txt ! nat 31]"
  using alphabets_fixed_and_distinct
          [of same_bitmaps zero_grid "''ZZZZZZ''" sample_env "''data:image/jpeg;base64,AAAA''"
              "''AAAAAA''"]
        same_bitmaps_parse sample_solve
  by simp

section \<open>Properties of the login loop\<close>

lemma challenge_unknown: "detectCaptchaType p = ''unknown'' \<Longrightarrow> challenge env p = None"
  by (simp add: challenge_def)

lemma challenge_Some: "challenge env p = Some (t, s) \<Longrightarrow> t \<noteq> [] \<and> s \<noteq> []"
  by (auto simp: challenge_def Let_def truthy_def split: if_splits option.splits)

lemma fetch_attempts_undetectable:
  assumes "\<forall>k. \<exists>p. get_page env k = Returns p \<and> detectCaptchaType p = ''unknown''"
  shows "fetch_attempts env a w = (None, w\<lparr>gets := gets w + (11 - a)\<rparr>)"
  using assms
proof (induction env a w rule: fetch_attempts.induct)
  case (1 env a w)
  note assms = "1.prems"
  show ?case
  proof (cases "a \<le> 10")
    case False
    then show ?thesis by (subst fetch_attempts.simps) simp
  next
    case True
    from assms obtain p where p: "get_page env (gets w) = Returns p"
      and u: "detectCaptchaType p = ''unknown''" by blast
    have c: "challenge env p = None" using u by (rule challenge_unknown)
    have "fetch_attempts env a w = fetch_attempts env (Suc a) (w\<lparr>gets := Suc (gets w)\<rparr>)"
      by (subst fetch_attempts.simps) (simp add: True p c)
    also have "\<dots> = (None, w\<lparr>gets := Suc (gets w) + (11 - Suc a)\<rparr>)"
      using "1.IH" [OF True p c assms] by simp
    also have "Suc (gets w) + (11 - Suc a) = gets w + (11 - a)"
      using True by simp
    finally show ?thesis .
  qed
qed

lemma fetch_attempts_Some:
  "fetch_attempts env a w = (Some (t, s), w1) \<Longrightarrow>
     t \<noteq> [] \<and> s \<noteq> [] \<and> posts w1 = posts w \<and> submitted w1 = submitted w \<and> gets w < gets w1"
proof (induction env a w rule: fetch_attempts.induct)
  case (1 env a w)
  from "1.prems" show ?case
    apply (subst (asm) fetch_attempts.simps)
    apply (auto split: if_splits outcome.splits option.splits dest!: "1.IH" challenge_Some)
    done
qed

lemma fetch_attempts_posts:
  "posts (snd (fetch_attempts env a w)) = posts w"
proof (induction env a w rule: fetch_attempts.induct)
  case (1 env a w)
  show ?case
    apply (subst fetch_attempts.simps)
    using 1
    apply (auto split: if_splits outcome.splits option.splits)
    done
qed

lemma fetch_first_page:
  assumes "get_page env (gets w) = Returns p" and "challenge env p = Some c"
  shows "fetchWithSession env w = (Some c, w\<lparr>gets := Suc (gets w)\<rparr>)"
  unfolding fetchWithSession_def
  by (subst fetch_attempts.simps) (simp add: assms)

lemma login_attempts_undetectable:
  assumes "\<forall>k. \<exists>p. get_page env k = Returns p \<and> detectCaptchaType p = ''unknown''"
  shows "login_attempts env u pw a w =
           (LoginFailure ''Maximum login attempts reached'', w\<lparr>gets := gets w + 10 * (5 - a)\<rparr>)"
  using assms
proof (induction env u pw a w rule: login_attempts.induct)
  case (1 env u pw a w)
  note assms = "1.prems"
  have f: "fetchWithSession env w = (None, w\<lparr>gets := gets w + 10\<rparr>)"
    unfolding fetchWithSession_def using fetch_attempts_undetectable [OF assms, of 1 w] by simp
  show ?case
  proof (cases "a < 5")
    case False
    then show ?thesis by (subst login_attempts.simps) simp
  next
    case True
    have "login_attempts env u pw a w = login_attempts env u pw (Suc a) (w\<lparr>gets := gets w + 10\<rparr>)"
      by (subst login_attempts.simps) (simp add: True f)
    also have "\<dots> = (LoginFailure ''Maximum login attempts reached'',
                      w\<lparr>gets := gets w + 10 + 10 * (5 - Suc a)\<rparr>)"
      using "1.IH"(1) [OF True f [symmetric] refl assms] by simp
    also have "gets w + 10 + 10 * (5 - Suc a) = gets w + 10 * (5 - a)"
      using True by simp
    finally show ?thesis .
  qed
qed

lemma js_includes_nonempty: "js_includes b pat \<Longrightarrow> pat \<noteq> [] \<Longrightarrow> b \<noteq> []"
  by (cases b) auto

lemma check_credentials:
  "js_includes b ''Invalid LoginId/Password'' \<Longrightarrow> checkResponseForErrors b = Some ''credentials''"
  using js_includes_nonempty [of b "''Invalid LoginId/Password''"]
  by (simp add: checkResponseForErrors_def)

lemma check_captcha:
  "js_includes b ''Invalid Captcha'' \<Longrightarrow> \<not> js_includes b ''Invalid LoginId/Password'' \<Longrightarrow>
   checkResponseForErrors b = Some ''captcha''"
  using js_includes_nonempty [of b "''Invalid Captcha''"]
  by (simp add: checkResponseForErrors_def)

lemma check_none:
  "\<not> js_includes b ''Invalid Captcha'' \<Longrightarrow> \<not> js_includes b ''Invalid LoginId/Password'' \<Longrightarrow>
   checkResponseForErrors b = None"
  by (simp add: checkResponseForErrors_def)

lemma fetchWithSession_Some:
  "fetchWithSession env w = (Some (t, s), w1) \<Longrightarrow>
     t \<noteq> [] \<and> s \<noteq> [] \<and> posts w1 = posts w \<and> submitted w1 = submitted w \<and> gets w < gets w1"
  unfolding fetchWithSession_def by (rule fetch_attempts_Some)

lemma fetchWithSession_posts: "fetchWithSession env w = (r, w1) \<Longrightarrow> posts w1 = posts w"
  unfolding fetchWithSession_def using fetch_attempts_posts [of env 1 w] by simp

lemma fetch_attempts_submitted:
  "submitted (snd (fetch_attempts env a w)) = submitted w"
proof (induction env a w rule: fetch_attempts.induct)
  case (1 env a w)
  show ?case
    apply (subst fetch_attempts.simps)
    using 1
    apply (auto split: if_splits outcome.splits option.splits)
    done
qed

lemma fetchWithSession_submitted:
  "fetchWithSession env w = (r, w1) \<Longrightarrow> submitted w1 = submitted w"
  unfolding fetchWithSession_def using fetch_attempts_submitted [of env 1 w] by simp

lemma first_challenge_posts:
  "first_challenge env n w = Some (c, w1) \<Longrightarrow> posts w1 = posts w \<and> submitted w1 = submitted w"
proof (induction n arbitrary: w)
  case 0
  then show ?case by simp
next
  case (Suc n)
  obtain r w2 where f: "fetchWithSession env w = (r, w2)" by (cases "fetchWithSession env w")
  have k: "posts w2 = posts w" "submitted w2 = submitted w"
    using f by (rule fetchWithSession_posts, rule fetchWithSession_submitted)
  show ?case
  proof (cases r)
    case None
    with Suc.prems f have "first_challenge env n w2 = Some (c, w1)" by simp
    from Suc.IH [OF this] k show ?thesis by simp
  next
    case (Some c')
    with Suc.prems f have "w1 = w2" by simp
    with k show ?thesis by simp
  qed
qed

lemma login_attempts_first_challenge:
  assumes "\<forall>k url. \<exists>b. post_login env k url = Returns b \<and> js_includes b ''Invalid LoginId/Password''"
  shows "(first_challenge env (5 - a) w = Some ((t, s), w1) \<longrightarrow>
            login_attempts env u pw a w =
              (LoginFailure ''Invalid credentials'',
               w1\<lparr>posts := Suc (posts w1),
                   submitted := submitted w1 @ [(gets w1, loginUrl env t u pw s)]\<rparr>))
       \<and> (first_challenge env (5 - a) w = None \<longrightarrow>
            (\<exists>w'. login_attempts env u pw a w = (LoginFailure ''Maximum login attempts reached'', w')
                 \<and> posts w' = posts w \<and> submitted w' = submitted w))"
  using assms
proof (induction env u pw a w rule: login_attempts.induct)
  case (1 env u pw a w)
  note H = "1.prems"
  show ?case
  proof (cases "a < 5")
    case False
    then have "5 - a = 0" by simp
    moreover have "login_attempts env u pw a w = (LoginFailure ''Maximum login attempts reached'', w)"
      using False by (subst login_attempts.simps) simp
    ultimately show ?thesis by simp
  next
    case True
    then have n: "5 - a = Suc (5 - Suc a)" by simp
    obtain r w2 where f: "fetchWithSession env w = (r, w2)" by (cases "fetchWithSession env w")
    have k: "posts w2 = posts w" "submitted w2 = submitted w"
      using f by (rule fetchWithSession_posts, rule fetchWithSession_submitted)
    show ?thesis
    proof (cases r)
      case None
      have "login_attempts env u pw a w = login_attempts env u pw (Suc a) w2"
        by (subst login_attempts.simps) (simp add: True f None)
      moreover have "first_challenge env (5 - a) w = first_challenge env (5 - Suc a) w2"
        unfolding n by (simp add: f None)
      ultimately show ?thesis
        using "1.IH"(1) [OF True f [symmetric, unfolded None] refl H] k by simp
    next
      case (Some c)
      obtain t' s' where c: "c = (t', s')" by (cases c)
      from f Some c have ne: "t' \<noteq> []" "s' \<noteq> []"
        using fetchWithSession_Some [of env w t' s' w2] by simp_all
      from H obtain b where b: "post_login env (posts w2) (loginUrl env t' u pw s') = Returns b"
        and m: "js_includes b ''Invalid LoginId/Password''" by blast
      have "login_attempts env u pw a w =
              (LoginFailure ''Invalid credentials'',
               w2\<lparr>posts := Suc (posts w2),
                   submitted := submitted w2 @ [(gets w2, loginUrl env t' u pw s')]\<rparr>)"
        by (subst login_attempts.simps) (simp add: True f Some c ne b check_credentials [OF m])
      moreover have "first_challenge env (5 - a) w = Some ((t', s'), w2)"
        unfolding n by (simp add: f Some c)
      ultimately show ?thesis by auto
    qed
  qed
qed

lemma first_submit_credentials:
  assumes p: "get_page env (gets w) = Returns p" and ch: "challenge env p = Some (t, s)"
    and b: "post_login env (posts w) (loginUrl env t u pw s) = Returns b"
    and m: "js_includes b ''Invalid LoginId/Password''"
  shows "attemptLogin env u pw (Some c) w =
           (LoginFailure ''Invalid credentials'',
            w\<lparr>gets := Suc (gets w), posts := Suc (posts w),
               submitted := submitted w @ [(Suc (gets w), loginUrl env t u pw s)]\<rparr>)"
proof -
  from challenge_Some [OF ch] have ne: "t \<noteq> []" "s \<noteq> []" by simp_all
  show ?thesis
    unfolding attemptLogin_def
    by (subst login_attempts.simps)
       (simp add: fetch_first_page [OF p ch] ne b check_credentials [OF m])
qed

lemma mock_challenge:
  "tok \<noteq> [] \<Longrightarrow> challenge (mock_remote answers) (captcha_page tok) = Some (tok, ''AAAAAA'')"
  by (simp add: challenge_def detectCaptchaType_def extractCaptchaImage_def captcha_page_def
        mock_remote_def js_or_def first_attr_def truthy_def sample_solve)

text \<open>
  C3, as the claim states it, fails: on a portal whose pages are blank and that would answer
  every submit with a body containing \<^verbatim>\<open>Invalid LoginId/Password\<close>, no challenge is ever
  obtained, and the login returns \<^verbatim>\<open>Maximum login attempts reached\<close> without any submit.
\<close>

theorem credentials_marker_never_seen_without_challenge:
  "post_login refusing_blank_remote = (\<lambda>k url. Returns ''<p>Invalid LoginId/Password</p>'')
   \<and> js_includes ''<p>Invalid LoginId/Password</p>'' ''Invalid LoginId/Password''
   \<and> attemptLogin refusing_blank_remote ''stu1'' ''pw1'' (Some 0) new_world
       = (LoginFailure ''Maximum login attempts reached'', \<lparr>gets = 50, posts = 0, submitted = []\<rparr>)
   \<and> fst (attemptLogin refusing_blank_remote ''stu1'' ''pw1'' (Some 0) new_world)
       \<noteq> LoginFailure ''Invalid credentials''"
proof -
  have "detectCaptchaType blank_page = ''unknown''"
    by (simp add: detectCaptchaType_def blank_page_def)
  then have "\<forall>k. \<exists>p. get_page refusing_blank_remote k = Returns p
                      \<and> detectCaptchaType p = ''unknown''"
    by (simp add: refusing_blank_remote_def)
  from login_attempts_undetectable [OF this, of "''stu1''" "''pw1''" 0 new_world]
  show ?thesis by (simp add: attemptLogin_def new_world_def refusing_blank_remote_def)
qed

text \<open>
  C3, amended. If every submit response body contains the substring
  \<^verbatim>\<open>Invalid LoginId/Password\<close> and one of the five fetch cycles of \<^verbatim>\<open>attemptLogin\<close> obtains
  a challenge, then \<^verbatim>\<open>attemptLogin\<close> returns \<^verbatim>\<open>{success:false, message:"Invalid credentials"}\<close>
  after exactly 1 submit attempt, made with the first challenge obtained; a credential
  error is terminal and is never retried. If none of the five fetch cycles obtains a
  challenge, \<^verbatim>\<open>attemptLogin\<close> returns
  \<^verbatim>\<open>{success:false, message:"Maximum login attempts reached"}\<close> without any submit.
\<close>

theorem credential_error_is_terminal:
  assumes "\<forall>k url. \<exists>b. post_login env k url = Returns b
                        \<and> js_includes b ''Invalid LoginId/Password''"
  shows "(first_challenge env 5 w = Some ((t, s), w1) \<longrightarrow>
            attemptLogin env u pw (Some c) w =
              (LoginFailure ''Invalid credentials'',
               w1\<lparr>posts := Suc (posts w),
                   submitted := submitted w @ [(gets w1, loginUrl env t u pw s)]\<rparr>))
       \<and> (first_challenge env 5 w = None \<longrightarrow>
            (\<exists>w'. attemptLogin env u pw (Some c) w
                     = (LoginFailure ''Maximum login attempts reached'', w')
                 \<and> posts w' = posts w \<and> submitted w' = submitted w))"
proof (intro conjI impI)
  assume f: "first_challenge env 5 w = Some ((t, s), w1)"
  from first_challenge_posts [OF f]
  have k: "posts w1 = posts w" "submitted w1 = submitted w" by simp_all
  from login_attempts_first_challenge [OF assms, of 0 w t s w1 u pw] f
  show "attemptLogin env u pw (Some c) w =
              (LoginFailure ''Invalid credentials'',
               w1\<lparr>posts := Suc (posts w),
                   submitted := submitted w @ [(gets w1, loginUrl env t u pw s)]\<rparr>)"
    by (simp add: attemptLogin_def k)
next
  assume f: "first_challenge env 5 w = None"
  from login_attempts_first_challenge [OF assms, of 0 w t s w1 u pw] f
  show "\<exists>w'. attemptLogin env u pw (Some c) w
                     = (LoginFailure ''Maximum login attempts reached'', w')
                 \<and> posts w' = posts w \<and> submitted w' = submitted w"
    by (simp add: attemptLogin_def)
qed

theorem credential_error_is_terminal_witness:
  "(\<forall>k url. \<exists>b. post_login (mock_remote (\<lambda>k. ''<p>Invalid LoginId/Password</p>'')) k url
                   = Returns b \<and> js_includes b ''Invalid LoginId/Password'')
   \<and> first_challenge (mock_remote (\<lambda>k. ''<p>Invalid LoginId/Password</p>'')) 5 new_world
       = Some ((''tok0'', ''AAAAAA''), \<lparr>gets = 1, posts = 0, submitted = []\<rparr>)
   \<and> attemptLogin (mock_remote (\<lambda>k. ''<p>Invalid LoginId/Password</p>'')) ''stu1'' ''pw1''
        (Some 0) new_world
       = (LoginFailure ''Invalid credentials'',
          \<lparr>gets = 1, posts = 1,
           submitted = [(1, ''https://vtop.vit.ac.in/vtop/login?_csrf=tok0&username=stu1&password=pw1&captchaStr=AAAAAA'')]\<rparr>)
   \<and> (\<forall>k url. \<exists>b. post_login refusing_blank_remote k url = Returns b
                   \<and> js_includes b ''Invalid LoginId/Password'')
   \<and> first_challenge refusing_blank_remote 5 new_world = None
   \<and> (\<exists>w'. attemptLogin refusing_blank_remote ''stu1'' ''pw1'' (Some 0) new_world
              = (LoginFailure ''Maximum login attempts reached'', w')
            \<and> posts w' = posts new_world \<and> submitted w' = submitted new_world)"
proof -
  let ?env = "mock_remote (\<lambda>k. ''<p>Invalid LoginId/Password</p>'')"
  have p: "get_page ?env (gets new_world) = Returns (captcha_page ''tok0'')"
    by (simp add: mock_remote_def new_world_def)
  have ch: "challenge ?env (captcha_page ''tok0'') = Some (''tok0'', ''AAAAAA'')"
    by (rule mock_challenge) simp
  have f: "first_challenge ?env 5 new_world
             = Some ((''tok0'', ''AAAAAA''), \<lparr>gets = 1, posts = 0, submitted = []\<rparr>)"
    using fetch_first_page [OF p ch] by (simp add: numeral_eq_Suc new_world_def)
  have h: "\<forall>k url. \<exists>b. post_login ?env k url = Returns b
                        \<and> js_includes b ''Invalid LoginId/Password''"
    by (simp add: mock_remote_def)
  have "detectCaptchaType blank_page = ''unknown''"
    by (simp add: detectCaptchaType_def blank_page_def)
  then have "\<forall>k. \<exists>p. get_page refusing_blank_remote k = Returns p
                      \<and> detectCaptchaType p = ''unknown''"
    by (simp add: refusing_blank_remote_def)
  from fetch_attempts_undetectable [OF this, of 1]
  have "fetchWithSession refusing_blank_remote w = (None, w\<lparr>gets := gets w + 10\<rparr>)" for w
    by (simp add: fetchWithSession_def)
  then have f': "first_challenge refusing_blank_remote 5 new_world = None"
    by (simp add: numeral_eq_Suc)
  have h': "\<forall>k url. \<exists>b. post_login refusing_blank_remote k url = Returns b
                        \<and> js_includes b ''Invalid LoginId/Password''"
    by (simp add: refusing_blank_remote_def)
  from credential_error_is_terminal
         [OF h, of new_world "''tok0''" "''AAAAAA''" "\<lparr>gets = 1, posts = 0, submitted = []\<rparr>"
             "''stu1''" "''pw1''" 0]
       credential_error_is_terminal
         [OF h', of new_world "''tok0''" "''AAAAAA''" new_world "''stu1''" "''pw1''" 0]
       f f' h h'
  show ?thesis
    by (simp add: new_world_def loginUrl_def mock_remote_def)
qed

text \<open>
  C4, as the claim states it, fails: a first answer that contains \<^verbatim>\<open>Invalid Captcha\<close> and
  also \<^verbatim>\<open>Invalid LoginId/Password\<close> is a credential error, which ends the login after one
  submit although the second answer would carry no marker.
\<close>

theorem both_markers_is_credential_error:
  "js_includes ''Invalid Captcha. Invalid LoginId/Password'' ''Invalid Captcha''
   \<and> \<not> js_includes ''<html>home</html>'' ''Invalid Captcha''
   \<and> \<not> js_includes ''<html>home</html>'' ''Invalid LoginId/Password''
   \<and> attemptLogin
        (mock_remote (\<lambda>k. if k = 0 then ''Invalid Captcha. Invalid LoginId/Password''
                           else ''<html>home</html>''))
        ''stu1'' ''pw1'' (Some 0) new_world
       = (LoginFailure ''Invalid credentials'',
          \<lparr>gets = 1, posts = 1,
           submitted = [(1, ''https://vtop.vit.ac.in/vtop/login?_csrf=tok0&username=stu1&password=pw1&captchaStr=AAAAAA'')]\<rparr>)"
proof -
  let ?env = "mock_remote (\<lambda>k. if k = 0 then ''Invalid Captcha. Invalid LoginId/Password''
                                else ''<html>home</html>'')"
  have p: "get_page ?env (gets new_world) = Returns (captcha_page ''tok0'')"
    by (simp add: mock_remote_def new_world_def)
  have ch: "challenge ?env (captcha_page ''tok0'') = Some (''tok0'', ''AAAAAA'')"
    by (rule mock_challenge) simp
  have b: "post_login ?env (posts new_world) (loginUrl ?env ''tok0'' ''stu1'' ''pw1'' ''AAAAAA'')
             = Returns ''Invalid Captcha. Invalid LoginId/Password''"
    by (simp add: mock_remote_def new_world_def)
  have m: "js_includes ''Invalid Captcha. Invalid LoginId/Password'' ''Invalid LoginId/Password''"
    by simp
  show ?thesis
    using first_submit_credentials [OF p ch b m, of 0]
    by (simp add: mock_remote_def new_world_def loginUrl_def)
qed

text \<open>
  C4, amended. If the first submit is answered with a body that contains
  \<^verbatim>\<open>Invalid Captcha\<close> and not \<^verbatim>\<open>Invalid LoginId/Password\<close>, the second with a body that
  contains neither marker, and each of the first two pages fetched yields a challenge, then
  \<^verbatim>\<open>attemptLogin\<close> returns \<^verbatim>\<open>{success:true, data:<second body>}\<close> after exactly two
  submits; the second submit comes after a second GET and carries the token and the
  solution taken from that second page.
\<close>

theorem captcha_retry_then_success:
  assumes "get_page env (gets w) = Returns p1" and "challenge env p1 = Some (t1, s1)"
    and "post_login env (posts w) (loginUrl env t1 u pw s1) = Returns b1"
    and "js_includes b1 ''Invalid Captcha''" and "\<not> js_includes b1 ''Invalid LoginId/Password''"
    and "get_page env (Suc (gets w)) = Returns p2" and "challenge env p2 = Some (t2, s2)"
    and "post_login env (Suc (posts w)) (loginUrl env t2 u pw s2) = Returns b2"
    and "\<not> js_includes b2 ''Invalid Captcha''" and "\<not> js_includes b2 ''Invalid LoginId/Password''"
  shows "attemptLogin env u pw (Some c) w =
           (LoginSuccess b2,
            w\<lparr>gets := Suc (Suc (gets w)), posts := Suc (Suc (posts w)),
               submitted := submitted w @ [(Suc (gets w), loginUrl env t1 u pw s1),
                                           (Suc (Suc (gets w)), loginUrl env t2 u pw s2)]\<rparr>)"
proof -
  from challenge_Some [OF assms(2)] have ne1: "t1 \<noteq> []" "s1 \<noteq> []" by simp_all
  from challenge_Some [OF assms(7)] have ne2: "t2 \<noteq> []" "s2 \<noteq> []" by simp_all
  let ?w1 = "w\<lparr>gets := Suc (gets w), posts := Suc (posts w),
                submitted := submitted w @ [(Suc (gets w), loginUrl env t1 u pw s1)]\<rparr>"
  have g2: "get_page env (gets ?w1) = Returns p2" using assms(6) by simp
  have step1: "login_attempts env u pw 0 w = login_attempts env u pw (Suc 0) ?w1"
    by (subst login_attempts.simps)
       (simp add: fetch_first_page [OF assms(1,2)] ne1 assms(3) check_captcha [OF assms(4,5)])
  have step2: "login_attempts env u pw (Suc 0) ?w1 =
           (LoginSuccess b2,
            w\<lparr>gets := Suc (Suc (gets w)), posts := Suc (Suc (posts w)),
               submitted := submitted w @ [(Suc (gets w), loginUrl env t1 u pw s1),
                                           (Suc (Suc (gets w)), loginUrl env t2 u pw s2)]\<rparr>)"
    by (subst login_attempts.simps)
       (simp add: fetch_first_page [OF g2 assms(7)] ne2 assms(8) check_none [OF assms(9,10)])
  show ?thesis unfolding attemptLogin_def using step1 step2 by simp
qed

theorem captcha_retry_then_success_witness:
  "get_page (mock_remote (\<lambda>k. if k = 0 then ''<p>Invalid Captcha</p>'' else ''<html>home</html>''))
      (gets new_world) = Returns (captcha_page ''tok0'')
   \<and> js_includes ''<p>Invalid Captcha</p>'' ''Invalid Captcha''
   \<and> \<not> js_includes ''<p>Invalid Captcha</p>'' ''Invalid LoginId/Password''
   \<and> \<not> js_includes ''<html>home</html>'' ''Invalid Captcha''
   \<and> \<not> js_includes ''<html>home</html>'' ''Invalid LoginId/Password''
   \<and> attemptLogin
        (mock_remote (\<lambda>k. if k = 0 then ''<p>Invalid Captcha</p>'' else ''<html>home</html>''))
        ''stu1'' ''pw1'' (Some 0) new_world
       = (LoginSuccess ''<html>home</html>'',
          \<lparr>gets = 2, posts = 2,
           submitted =
             [(1, ''https://vtop.vit.ac.in/vtop/login?_csrf=tok0&username=stu1&password=pw1&captchaStr=AAAAAA''),
              (2, ''https://vtop.vit.ac.in/vtop/login?_csrf=tok1&username=stu1&password=pw1&captchaStr=AAAAAA'')]\<rparr>)"
  using captcha_retry_then_success
          [of "mock_remote (\<lambda>k. if k = 0 then ''<p>Invalid Captcha</p>'' else ''<html>home</html>'')"
              new_world "captcha_page ''tok0''" "''tok0''" "''AAAAAA''" "''stu1''" "''pw1''"
              "''<p>Invalid Captcha</p>''" "captcha_page ''tok1''" "''tok1''" "''AAAAAA''"
              "''<html>home</html>''" 0]
        mock_challenge [of "''tok0''"] mock_challenge [of "''tok1''"]
  by (simp add: mock_remote_def new_world_def loginUrl_def)




end
